(* ===== verification/Cxx_Prelude.thy ===== *)
theory Cxx_Prelude
  imports Main "HOL-Library.Word" "HOL-Library.Signed_Division"
begin

text \<open>
  What every component shares: the meaning of the C++ constructs the library is written
  with.  A method is a computation over a world (the memory and the operating system): it
  may not return at all (\<open>None\<close>: it blocks or loops for ever), it may leave by an
  exception, by \<open>std::terminate\<close> or by undefined behaviour (\<open>Inl\<close>), or return a
  value (\<open>Inr\<close>).  The collection \<open>comp_simps\<close> carries the equations of the
  sequencing operators; the last section holds the arithmetic of C++ signed integers on
  \<open>word\<close> values.
\<close>

named_theorems comp_simps

section \<open>Computations\<close>

datatype 'e failure = Thrown 'e | Terminated | Undefined

type_synonym ('w, 'e, 'a) comp = "'w \<Rightarrow> (('e failure + 'a) \<times> 'w) option"

definition ret :: "'a \<Rightarrow> ('w, 'e, 'a) comp" where
  "ret a w = Some (Inr a, w)"

definition fail :: "'e failure \<Rightarrow> ('w, 'e, 'a) comp" where
  "fail f w = Some (Inl f, w)"

abbreviation throw :: "'e \<Rightarrow> ('w, 'e, 'a) comp" where
  "throw e \<equiv> fail (Thrown e)"

abbreviation undefined_behaviour :: "('w, 'e, 'a) comp" where
  "undefined_behaviour \<equiv> fail Undefined"

text \<open>Sequencing \<open>m; k\<close>: a failure of the first part skips the second.\<close>

definition bind :: "('w, 'e, 'a) comp \<Rightarrow> ('a \<Rightarrow> ('w, 'e, 'b) comp) \<Rightarrow> ('w, 'e, 'b) comp" where
  "bind m k w = (case m w of
       None \<Rightarrow> None
     | Some (Inl f, w') \<Rightarrow> Some (Inl f, w')
     | Some (Inr a, w') \<Rightarrow> k a w')"

abbreviation seq :: "('w, 'e, 'a) comp \<Rightarrow> ('w, 'e, 'b) comp \<Rightarrow> ('w, 'e, 'b) comp" where
  "seq m k \<equiv> bind m (\<lambda>_. k)"

text \<open>
  A foreign call that always returns, a foreign call that may block, a read and a write of
  the memory.
\<close>

definition call :: "('w \<Rightarrow> 'a \<times> 'w) \<Rightarrow> ('w, 'e, 'a) comp" where
  "call f w = (case f w of (r, w') \<Rightarrow> Some (Inr r, w'))"

definition block :: "('w \<Rightarrow> ('a \<times> 'w) option) \<Rightarrow> ('w, 'e, 'a) comp" where
  "block f w = (case f w of None \<Rightarrow> None | Some (r, w') \<Rightarrow> Some (Inr r, w'))"

definition gets :: "('w \<Rightarrow> 'a) \<Rightarrow> ('w, 'e, 'a) comp" where
  "gets f w = Some (Inr (f w), w)"

definition modify :: "('w \<Rightarrow> 'w) \<Rightarrow> ('w, 'e, unit) comp" where
  "modify f w = Some (Inr (), f w)"

text \<open>\<open>try m catch (e) h e\<close>: only an exception is caught, never termination.\<close>

definition try_catch :: "('w, 'e, 'a) comp \<Rightarrow> ('e \<Rightarrow> ('w, 'e, 'a) comp) \<Rightarrow> ('w, 'e, 'a) comp" where
  "try_catch m h w = (case m w of
       Some (Inl (Thrown e), w') \<Rightarrow> h e w'
     | r \<Rightarrow> r)"

text \<open>An exception that leaves a \<open>noexcept\<close> function, a destructor say, terminates the program.\<close>

definition noexcept :: "('w, 'e, 'a) comp \<Rightarrow> ('w, 'e, 'a) comp" where
  "noexcept m w = (case m w of
       Some (Inl (Thrown e), w') \<Rightarrow> Some (Inl Terminated, w')
     | r \<Rightarrow> r)"

text \<open>
  A scope with a local object: the body runs, then the destructor, whether the body
  returned or threw.  The destructor is \<open>noexcept\<close>.
\<close>

definition scoped :: "('w, 'e, 'a) comp \<Rightarrow> ('w, 'e, unit) comp \<Rightarrow> ('w, 'e, 'a) comp" where
  "scoped body dtor w = (case body w of
       None \<Rightarrow> None
     | Some (Inr a, w') \<Rightarrow> bind (noexcept dtor) (\<lambda>_. ret a) w'
     | Some (Inl (Thrown e), w') \<Rightarrow> bind (noexcept dtor) (\<lambda>_. throw e) w'
     | Some (Inl f, w') \<Rightarrow> Some (Inl f, w'))"

text \<open>
  A constructor body that throws after the object counts as constructed (a delegating
  constructor): the destructor runs, then the exception goes on.
\<close>

definition on_throw :: "('w, 'e, 'a) comp \<Rightarrow> ('w, 'e, unit) comp \<Rightarrow> ('w, 'e, 'a) comp" where
  "on_throw m dtor w = (case m w of
       Some (Inl (Thrown e), w') \<Rightarrow> bind (noexcept dtor) (\<lambda>_. throw e) w'
     | r \<Rightarrow> r)"

subsection \<open>Their equations\<close>

lemma ret_simp [comp_simps, simp]: "ret a w = Some (Inr a, w)"
  by (simp add: ret_def)

lemma fail_simp [comp_simps, simp]: "fail f w = Some (Inl f, w)"
  by (simp add: fail_def)

lemma call_simp [comp_simps]: "call f w = Some (Inr (fst (f w)), snd (f w))"
  by (simp add: call_def split: prod.split)

lemma bind_call [comp_simps]: "bind (call f) k w = k (fst (f w)) (snd (f w))"
  by (simp add: bind_def call_def split: prod.split)

lemma bind_ret [comp_simps, simp]: "bind (ret a) k w = k a w"
  by (simp add: bind_def)

lemma bind_ret_eta: "bind (ret a) k = k a"
  by (rule ext) simp

lemma bind_fail [comp_simps, simp]: "bind (fail f) k w = Some (Inl f, w)"
  by (simp add: bind_def)

lemma bind_gets [comp_simps, simp]: "bind (gets g) k w = k (g w) w"
  by (simp add: bind_def gets_def)

lemma bind_modify [comp_simps, simp]: "bind (modify h) k w = k () (h w)"
  by (simp add: bind_def modify_def)

text \<open>A call that may block, followed by the rest.\<close>

lemma bind_block:
  "bind (block f) k w = (case f w of None \<Rightarrow> None | Some (r, u) \<Rightarrow> k r u)"
  by (simp add: bind_def block_def split: option.split)

lemma bind_ret_right [simp]: "bind m ret = m"
  by (rule ext) (simp add: bind_def split: option.split sum.split)

lemma bind_assoc: "bind (bind m k) l = bind m (\<lambda>a. bind (k a) l)"
  by (rule ext) (simp add: bind_def split: option.split sum.split)

lemma bind_None [comp_simps]: "m w = None \<Longrightarrow> bind m k w = None"
  and bind_Inl [comp_simps]: "m w = Some (Inl f, w') \<Longrightarrow> bind m k w = Some (Inl f, w')"
  and bind_Inr [comp_simps]: "m w = Some (Inr a, w') \<Longrightarrow> bind m k w = k a w'"
  by (simp_all add: bind_def)

lemma bind_Some_Inr_E:
  assumes "bind m k w = Some (Inr b, w')"
  obtains a w1 where "m w = Some (Inr a, w1)" and "k a w1 = Some (Inr b, w')"
  using assms by (auto simp: bind_def split: option.splits sum.splits)

lemma bind_Some_E:
  assumes "bind m k w = Some (r, w')"
  obtains (failed) f where "m w = Some (Inl f, w')" and "r = Inl f"
    | (went_on) a w1 where "m w = Some (Inr a, w1)" and "k a w1 = Some (r, w')"
  using assms by (auto simp: bind_def split: option.splits sum.splits)

text \<open>When a sequence, a scope or a loop returns, and when a scope throws.\<close>

lemma bind_returns_iff:
  "bind m k w = Some (Inr b, w') \<longleftrightarrow> (\<exists>a w1. m w = Some (Inr a, w1) \<and> k a w1 = Some (Inr b, w'))"
  by (auto simp: bind_def split: option.splits sum.splits)

lemma bind_throws_iff:
  "bind m k w = Some (Inl f, w') \<longleftrightarrow>
     m w = Some (Inl f, w') \<or> (\<exists>a w1. m w = Some (Inr a, w1) \<and> k a w1 = Some (Inl f, w'))"
  by (auto simp: bind_def split: option.splits sum.splits)

lemma scoped_returns_iff:
  "scoped body dtor w = Some (Inr a, w') \<longleftrightarrow>
     (\<exists>w1. body w = Some (Inr a, w1) \<and> dtor w1 = Some (Inr (), w'))"
  by (auto simp: scoped_def bind_def noexcept_def split: option.splits sum.splits failure.splits)

lemma scoped_throws_iff:
  "scoped body dtor w = Some (Inl (Thrown e), w') \<longleftrightarrow>
     (\<exists>w1. body w = Some (Inl (Thrown e), w1) \<and> dtor w1 = Some (Inr (), w'))"
  by (auto simp: scoped_def bind_def noexcept_def split: option.splits sum.splits failure.splits)

lemma block_None [comp_simps]: "f w = None \<Longrightarrow> block f w = None"
  and block_Some [comp_simps]: "f w = Some (r, w') \<Longrightarrow> block f w = Some (Inr r, w')"
  by (simp_all add: block_def)

lemma noexcept_Inr [comp_simps]: "m w = Some (Inr a, w') \<Longrightarrow> noexcept m w = Some (Inr a, w')"
  and noexcept_thrown [comp_simps]:
    "m w = Some (Inl (Thrown e), w') \<Longrightarrow> noexcept m w = Some (Inl Terminated, w')"
  and noexcept_None [comp_simps]: "m w = None \<Longrightarrow> noexcept m w = None"
  by (simp_all add: noexcept_def)

lemma scoped_None [comp_simps]: "body w = None \<Longrightarrow> scoped body dtor w = None"
  and scoped_Inr [comp_simps]:
    "body w = Some (Inr a, w') \<Longrightarrow> scoped body dtor w = bind (noexcept dtor) (\<lambda>_. ret a) w'"
  and scoped_Thrown [comp_simps]:
    "body w = Some (Inl (Thrown e), w') \<Longrightarrow>
       scoped body dtor w = bind (noexcept dtor) (\<lambda>_. throw e) w'"
  by (simp_all add: scoped_def)

text \<open>A destructor that succeeds passes the outcome of the body through.\<close>

lemma scoped_dtor_ok:
  assumes "body w = Some (r, w1)" and "r \<noteq> Inl Terminated" and "r \<noteq> Inl Undefined"
    and "dtor w1 = Some (Inr (), w2)"
  shows "scoped body dtor w = Some (r, w2)"
proof (cases r)
  case (Inl f)
  with assms show ?thesis by (cases f) (simp_all add: comp_simps)
next
  case (Inr a)
  with assms show ?thesis by (simp add: comp_simps)
qed

lemma on_throw_kept [comp_simps]: "m w = Some (Inr a, w') \<Longrightarrow> on_throw m dtor w = Some (Inr a, w')"
  by (simp add: on_throw_def)

lemma on_throw_undone [comp_simps]:
  "m w = Some (Inl (Thrown e), w') \<Longrightarrow> dtor w' = Some (Inr (), w'') \<Longrightarrow>
     on_throw m dtor w = Some (Inl (Thrown e), w'')"
  by (simp add: on_throw_def bind_def noexcept_def)

lemma on_throw_returns_iff: "on_throw m dtor w = Some (Inr a, w') \<longleftrightarrow> m w = Some (Inr a, w')"
  by (auto simp: on_throw_def bind_def noexcept_def split: option.splits sum.splits failure.splits)

text \<open>Loops are defined by \<open>partial_function\<close>; sequencing is monotone in its parts.\<close>

lemma bind_mono [partial_function_mono]:
  fixes B :: "('i \<Rightarrow> 'o option) \<Rightarrow> ('w, 'e, 'a) comp"
  assumes B: "\<And>w. mono_option (\<lambda>f. B f w)" and C: "\<And>a w. mono_option (\<lambda>f. C a f w)"
  shows "mono_option (\<lambda>f. bind (B f) (\<lambda>a. C a f) w)"
proof (rule monotoneI)
  fix f g :: "'i \<Rightarrow> 'o option"
  assume fg: "option.le_fun f g"
  have 1: "option_ord (B f w) (B g w)" for w
    using monotoneD [OF B [of w], OF fg] by simp
  have 2: "option_ord (C a f w) (C a g w)" for a w
    using monotoneD [OF C [of a w], OF fg] by simp
  show "option_ord (bind (B f) (\<lambda>a. C a f) w) (bind (B g) (\<lambda>a. C a g) w)"
  proof (cases "B f w")
    case None
    then show ?thesis by (simp add: bind_def flat_ord_def)
  next
    case (Some p)
    with 1 [of w] have "B g w = Some p" by (simp add: flat_ord_def)
    with Some 2 show ?thesis by (cases p) (auto simp: bind_def flat_ord_def split: sum.split)
  qed
qed

section \<open>Loops\<close>

text \<open>
  \<open>while (cond) body\<close> over the local variables \<open>s\<close>.  A loop that never ends has no result.
\<close>

partial_function (option) while_comp ::
  "('s \<Rightarrow> bool) \<Rightarrow> ('s \<Rightarrow> ('w, 'e, 's) comp) \<Rightarrow> 's \<Rightarrow> 'w \<Rightarrow> (('e failure + 's) \<times> 'w) option" where
  "while_comp cond body s w =
     (if cond s then bind (body s) (\<lambda>s'. while_comp cond body s') w else ret s w)"

lemma while_comp_stop [comp_simps]: "\<not> cond s \<Longrightarrow> while_comp cond body s w = Some (Inr s, w)"
  by (subst while_comp.simps) simp

lemma while_comp_go [comp_simps]:
  "cond s \<Longrightarrow> while_comp cond body s w = bind (body s) (while_comp cond body) w"
  by (subst while_comp.simps) simp

text \<open>A result is reached in finitely many rounds: loops are reasoned about by induction on them.\<close>

primrec while_fuel ::
  "nat \<Rightarrow> ('s \<Rightarrow> bool) \<Rightarrow> ('s \<Rightarrow> ('w, 'e, 's) comp) \<Rightarrow> 's \<Rightarrow> ('w, 'e, 's) comp" where
  "while_fuel 0 cond body s = (\<lambda>w. None)"
| "while_fuel (Suc n) cond body s =
     (if cond s then bind (body s) (while_fuel n cond body) else ret s)"

lemma while_fuel_sound:
  "while_fuel n cond body s w = Some r \<Longrightarrow> while_comp cond body s w = Some r"
proof (induction n arbitrary: s w)
  case (Suc n)
  then show ?case
    by (cases "cond s") (auto simp: comp_simps bind_def split: option.splits sum.splits)
qed simp

lemma while_fuel_complete:
  assumes "while_comp cond body s w = Some r"
  shows "\<exists>n. while_fuel n cond body s w = Some r"
proof (rule while_comp.raw_induct
    [where P = "\<lambda>cond body s w r. \<exists>n. while_fuel n cond body s w = Some r", OF _ assms])
  fix loop cond body s w r
  assume IH: "\<And>cond body s w r. loop cond body s w = Some r \<Longrightarrow>
      \<exists>n. while_fuel n cond body s w = Some r"
    and eq: "(if cond s then bind (body s) (loop cond body) w else ret s w) = Some r"
  show "\<exists>n. while_fuel n cond body s w = Some r"
  proof (cases "cond s")
    case True
    with eq have b: "bind (body s) (loop cond body) w = Some (fst r, snd r)" by simp
    then show ?thesis
    proof (cases rule: bind_Some_E)
      case (failed f)
      with True show ?thesis by (intro exI [of _ 1]) (cases r, simp add: bind_def)
    next
      case (went_on s' u)
      with IH [of cond body s' u r] obtain n where "while_fuel n cond body s' u = Some r" by auto
      with True went_on(1) show ?thesis by (intro exI [of _ "Suc n"]) (simp add: bind_def)
    qed
  next
    case False
    with eq show ?thesis by (intro exI [of _ 1]) simp
  qed
qed

lemma while_comp_iff:
  "while_comp cond body s w = Some r \<longleftrightarrow> (\<exists>n. while_fuel n cond body s w = Some r)"
  using while_fuel_sound while_fuel_complete by metis

text \<open>\<open>for (x : xs) body (x);\<close> a failure ends the loop.\<close>

primrec for_each :: "('x \<Rightarrow> ('w, 'e, unit) comp) \<Rightarrow> 'x list \<Rightarrow> ('w, 'e, unit) comp" where
  "for_each body [] = ret ()"
| "for_each body (x # xs) = bind (body x) (\<lambda>_. for_each body xs)"

section \<open>Invariants of the world\<close>

text \<open>A computation keeps an invariant if it holds whenever the computation comes to an end.\<close>

named_theorems keep

definition keeps :: "('w \<Rightarrow> bool) \<Rightarrow> ('w, 'e, 'a) comp \<Rightarrow> bool" where
  "keeps I m \<longleftrightarrow> (\<forall>w r w'. I w \<longrightarrow> m w = Some (r, w') \<longrightarrow> I w')"

lemma keepsI: "(\<And>w r w'. I w \<Longrightarrow> m w = Some (r, w') \<Longrightarrow> I w') \<Longrightarrow> keeps I m"
  by (simp add: keeps_def)

lemma keepsD: "keeps I m \<Longrightarrow> m w = Some (r, w') \<Longrightarrow> I w \<Longrightarrow> I w'"
  by (auto simp: keeps_def)

lemma keeps_ret [keep]: "keeps I (ret a)"
  and keeps_fail [keep]: "keeps I (fail f)"
  and keeps_gets [keep]: "keeps I (gets g)"
  by (simp_all add: keeps_def gets_def)

lemma keeps_modify: "(\<And>w. I w \<Longrightarrow> I (h w)) \<Longrightarrow> keeps I (modify h)"
  by (simp add: keeps_def modify_def)

lemma keeps_bind [keep]: "keeps I m \<Longrightarrow> (\<And>a. keeps I (k a)) \<Longrightarrow> keeps I (bind m k)"
  by (rule keepsI) (auto elim!: bind_Some_E dest: keepsD)

lemma keeps_if [keep]: "keeps I m \<Longrightarrow> keeps I m' \<Longrightarrow> keeps I (if b then m else m')"
  by simp

lemma keeps_case_option [keep]:
  "keeps I m \<Longrightarrow> (\<And>a. keeps I (k a)) \<Longrightarrow> keeps I (case x of None \<Rightarrow> m | Some a \<Rightarrow> k a)"
  by (cases x) auto

lemma keeps_case_list [keep]:
  "keeps I m \<Longrightarrow> (\<And>a as. keeps I (k a as)) \<Longrightarrow> keeps I (case xs of [] \<Rightarrow> m | a # as \<Rightarrow> k a as)"
  by (cases xs) auto

lemma keeps_noexcept [keep]: "keeps I m \<Longrightarrow> keeps I (noexcept m)"
  by (rule keepsI) (auto simp: noexcept_def dest: keepsD
      split: option.splits prod.splits sum.splits failure.splits)

lemma keeps_try_catch [keep]: "keeps I m \<Longrightarrow> (\<And>e. keeps I (h e)) \<Longrightarrow> keeps I (try_catch m h)"
  by (rule keepsI) (auto simp: try_catch_def dest: keepsD
      split: option.splits prod.splits sum.splits failure.splits)

lemma keeps_scoped [keep]:
  assumes "keeps I body" and "keeps I dtor"
  shows "keeps I (scoped body dtor)"
proof (rule keepsI)
  fix w r w'
  assume "I w" and run: "scoped body dtor w = Some (r, w')"
  then obtain s u where b: "body w = Some (s, u)" by (cases "body w") (auto simp: scoped_None)
  from keepsD [OF assms(1) b \<open>I w\<close>] have "I u" .
  have d: "keeps I (bind (noexcept dtor) (\<lambda>_. k))" if "keeps I k" for k :: "('a, 'b, 'c) comp"
    using that assms(2) by (intro keep)
  from run b \<open>I u\<close> show "I w'"
    by (auto simp: scoped_def split: sum.splits failure.splits
        dest: keepsD [OF d [OF keeps_ret]] keepsD [OF d [OF keeps_fail]])
qed

lemma keeps_on_throw [keep]:
  assumes "keeps I m" and "keeps I dtor"
  shows "keeps I (on_throw m dtor)"
proof (rule keepsI)
  fix w r w'
  assume "I w" and run: "on_throw m dtor w = Some (r, w')"
  then obtain s u where b: "m w = Some (s, u)" by (cases "m w") (auto simp: on_throw_def)
  from keepsD [OF assms(1) b \<open>I w\<close>] have "I u" .
  have "keeps I (bind (noexcept dtor) (\<lambda>_. throw e :: ('a, 'b, 'c) comp))" for e
    using assms(2) by (intro keep)
  with run b \<open>I u\<close> show "I w'"
    by (auto simp: on_throw_def split: sum.splits failure.splits dest: keepsD)
qed

lemma keeps_for_each [keep]: "(\<And>x. keeps I (body x)) \<Longrightarrow> keeps I (for_each body xs)"
  by (induction xs) (auto intro: keep)

lemma keeps_while_comp [keep]:
  assumes "\<And>s. keeps I (body s)"
  shows "keeps I (while_comp cond body s)"
proof -
  have "keeps I (while_fuel n cond body s)" for n s
    by (induction n arbitrary: s) (auto simp: keeps_def [of I "\<lambda>w. None"] intro: keep assms)
  then show ?thesis unfolding keeps_def while_comp_iff by blast
qed

section \<open>Absence of undefined behaviour\<close>

named_theorems no_ub

definition never_ub :: "('w, 'e, 'a) comp \<Rightarrow> 'w \<Rightarrow> bool" where
  "never_ub m w \<longleftrightarrow> (\<forall>w'. m w \<noteq> Some (Inl Undefined, w'))"

lemma never_ub_ret [no_ub]: "never_ub (ret a) w"
  and never_ub_throw [no_ub]: "never_ub (throw e) w"
  and never_ub_gets [no_ub]: "never_ub (gets g) w"
  and never_ub_modify [no_ub]: "never_ub (modify h) w"
  by (simp_all add: never_ub_def gets_def modify_def)

lemma never_ub_call [no_ub]: "never_ub (call f) w"
  by (simp add: never_ub_def call_def split: prod.split)

lemma never_ub_block [no_ub]: "never_ub (block f) w"
  by (simp add: never_ub_def block_def split: option.split)

lemma never_ub_if [no_ub]:
  "(b \<Longrightarrow> never_ub m w) \<Longrightarrow> (\<not> b \<Longrightarrow> never_ub m' w) \<Longrightarrow> never_ub (if b then m else m') w"
  by simp

lemma never_ub_bind [no_ub]:
  assumes "never_ub m w" and "\<And>a u. m w = Some (Inr a, u) \<Longrightarrow> never_ub (k a) u"
  shows "never_ub (bind m k) w"
  using assms by (auto simp: never_ub_def bind_def split: option.splits sum.splits)

lemma never_ub_noexcept [no_ub]: "never_ub m w \<Longrightarrow> never_ub (noexcept m) w"
  by (auto simp: never_ub_def noexcept_def split: option.splits sum.splits failure.splits)

lemma never_ub_scoped [no_ub]:
  assumes "never_ub body w" and dtor: "\<And>u. never_ub dtor u"
  shows "never_ub (scoped body dtor) w"
proof -
  have d: "noexcept dtor u \<noteq> Some (Inl Undefined, v)" for u v
    using never_ub_noexcept [OF dtor] by (auto simp: never_ub_def)
  show ?thesis
    using assms(1) d
    by (auto simp: never_ub_def scoped_def bind_def split: option.splits sum.splits failure.splits)
qed

lemma bind_undefined_iff:
  assumes "\<And>a u. m w = Some (Inr a, u) \<Longrightarrow> never_ub (k a) u"
  shows "bind m k w = Some (Inl Undefined, w') \<longleftrightarrow> m w = Some (Inl Undefined, w')"
  using assms by (auto simp: bind_throws_iff never_ub_def)

lemma scoped_undefined_iff:
  assumes "\<And>u. never_ub dtor u"
  shows "scoped body dtor w = Some (Inl Undefined, w') \<longleftrightarrow> body w = Some (Inl Undefined, w')"
proof -
  have "noexcept dtor u \<noteq> Some (Inl Undefined, v)" for u v
    using never_ub_noexcept [OF assms] by (auto simp: never_ub_def)
  then show ?thesis
    by (auto simp: scoped_def bind_def split: option.splits sum.splits failure.splits)
qed

section \<open>The exceptions that leave a computation\<close>

text \<open>
  \<open>may_throw E m\<close>: whatever the world, only exceptions that satisfy \<open>E\<close> leave \<open>m\<close>.  A handler
  sees what its body may throw; nothing leaves a \<open>noexcept\<close> function.  The rules of the
  collection follow the operators, like the rules of a type system.
\<close>

named_theorems throws

definition may_throw :: "('e \<Rightarrow> bool) \<Rightarrow> ('w, 'e, 'a) comp \<Rightarrow> bool" where
  "may_throw E m \<longleftrightarrow> (\<forall>w e w'. m w = Some (Inl (Thrown e), w') \<longrightarrow> E e)"

lemma may_throwI: "(\<And>w e w'. m w = Some (Inl (Thrown e), w') \<Longrightarrow> E e) \<Longrightarrow> may_throw E m"
  by (simp add: may_throw_def)

lemma may_throwD: "may_throw E m \<Longrightarrow> m w = Some (Inl (Thrown e), w') \<Longrightarrow> E e"
  by (auto simp: may_throw_def)

lemma may_throw_mono: "may_throw E m \<Longrightarrow> (\<And>e. E e \<Longrightarrow> F e) \<Longrightarrow> may_throw F m"
  by (auto simp: may_throw_def)

lemma may_throw_ret [throws]: "may_throw E (ret a)"
  and may_throw_gets [throws]: "may_throw E (gets g)"
  and may_throw_modify [throws]: "may_throw E (modify h)"
  and may_throw_undefined [throws]: "may_throw E undefined_behaviour"
  by (simp_all add: may_throw_def gets_def modify_def)

lemma may_throw_call [throws]: "may_throw E (call f)"
  by (simp add: may_throw_def call_def split: prod.split)

lemma may_throw_block [throws]: "may_throw E (block f)"
  by (simp add: may_throw_def block_def split: option.split)

lemma may_throw_throw [throws]: "E e \<Longrightarrow> may_throw E (throw e)"
  by (simp add: may_throw_def)

lemma may_throw_bind [throws]:
  "may_throw E m \<Longrightarrow> (\<And>a. may_throw E (k a)) \<Longrightarrow> may_throw E (bind m k)"
  by (rule may_throwI) (auto elim!: bind_Some_E dest: may_throwD)

lemma may_throw_if [throws]: "may_throw E m \<Longrightarrow> may_throw E m' \<Longrightarrow> may_throw E (if b then m else m')"
  by simp

lemma may_throw_case_option [throws]:
  "may_throw E m \<Longrightarrow> (\<And>a. may_throw E (k a)) \<Longrightarrow> may_throw E (case x of None \<Rightarrow> m | Some a \<Rightarrow> k a)"
  by (cases x) auto

lemma may_throw_case_list [throws]:
  "may_throw E m \<Longrightarrow> (\<And>a as. may_throw E (k a as)) \<Longrightarrow>
     may_throw E (case xs of [] \<Rightarrow> m | a # as \<Rightarrow> k a as)"
  by (cases xs) auto

lemma may_throw_case_prod [throws]:
  "(\<And>a b. may_throw E (k a b)) \<Longrightarrow> may_throw E (case x of (a, b) \<Rightarrow> k a b)"
  by (cases x) auto

lemma may_throw_noexcept [throws]: "may_throw E (noexcept m)"
  by (auto simp: may_throw_def noexcept_def split: option.splits sum.splits failure.splits)

lemma may_throw_try_catch [throws]:
  "may_throw F m \<Longrightarrow> (\<And>e. F e \<Longrightarrow> may_throw E (h e)) \<Longrightarrow> may_throw E (try_catch m h)"
  by (rule may_throwI) (auto simp: try_catch_def dest: may_throwD
      split: option.splits prod.splits sum.splits failure.splits)

lemma may_throw_noexcept_seq: "bind (noexcept d) (\<lambda>_. k) w = Some (Inl (Thrown e), w') \<Longrightarrow>
    \<exists>u. k u = Some (Inl (Thrown e), w')"
  by (auto elim!: bind_Some_E dest: may_throwD [OF may_throw_noexcept [of "\<lambda>_. False"]])

lemma may_throw_scoped [throws]: "may_throw E body \<Longrightarrow> may_throw E (scoped body dtor)"
  apply (rule may_throwI)
  apply (auto simp: scoped_def dest!: may_throw_noexcept_seq
      split: option.splits sum.splits failure.splits)
  apply (erule (1) may_throwD)
  done

lemma may_throw_on_throw [throws]: "may_throw E m \<Longrightarrow> may_throw E (on_throw m dtor)"
  apply (rule may_throwI)
  apply (auto simp: on_throw_def dest!: may_throw_noexcept_seq
      split: option.splits sum.splits failure.splits)
  apply (erule (1) may_throwD)
  done

lemma may_throw_for_each [throws]: "(\<And>x. may_throw E (body x)) \<Longrightarrow> may_throw E (for_each body xs)"
  by (induction xs) (auto intro: throws)

lemma may_throw_while_comp [throws]:
  assumes "\<And>s. may_throw E (body s)"
  shows "may_throw E (while_comp cond body s)"
proof -
  have "may_throw E (while_fuel n cond body s)" for n s
    by (induction n arbitrary: s) (auto simp: may_throw_def [of E "\<lambda>w. None"] intro: throws assms)
  then show ?thesis unfolding may_throw_def while_comp_iff by blast
qed

section \<open>How long a computation lasts\<close>

text \<open>
  \<open>lasts clock d m\<close>: from every world \<open>m\<close> comes to an end, at most \<open>d\<close> later by the clock.
\<close>

definition lasts :: "('w \<Rightarrow> int) \<Rightarrow> int \<Rightarrow> ('w, 'e, 'a) comp \<Rightarrow> bool" where
  "lasts clock d m \<longleftrightarrow> (\<forall>w. \<exists>r w'. m w = Some (r, w') \<and> clock w' \<le> clock w + d)"

lemma lastsI: "(\<And>w. \<exists>r w'. m w = Some (r, w') \<and> clock w' \<le> clock w + d) \<Longrightarrow> lasts clock d m"
  by (simp add: lasts_def)

lemma lastsE:
  assumes "lasts clock d m"
  obtains r w' where "m w = Some (r, w')" and "clock w' \<le> clock w + d"
  using assms unfolding lasts_def by blast

lemma lasts_longer: "lasts clock d m \<Longrightarrow> d \<le> d' \<Longrightarrow> lasts clock d' m"
  by (fastforce simp: lasts_def)

lemma lasts_ret: "0 \<le> d \<Longrightarrow> lasts clock d (ret a)"
  and lasts_fail: "0 \<le> d \<Longrightarrow> lasts clock d (fail f)"
  by (simp_all add: lasts_def)

lemma lasts_call: "(\<And>w. clock (snd (f w)) \<le> clock w + d) \<Longrightarrow> lasts clock d (call f)"
  by (simp add: lasts_def call_simp)

lemma lasts_modify: "(\<And>w. clock (h w) \<le> clock w + d) \<Longrightarrow> lasts clock d (modify h)"
  by (simp add: lasts_def modify_def)

lemma lasts_bind:
  assumes m: "lasts clock d m" and k: "\<And>a. lasts clock d' (k a)" and d': "0 \<le> d'"
  shows "lasts clock (d + d') (bind m k)"
proof (rule lastsI)
  fix w
  from m obtain r u where u: "m w = Some (r, u)" "clock u \<le> clock w + d" by (rule lastsE)
  show "\<exists>r w'. bind m k w = Some (r, w') \<and> clock w' \<le> clock w + (d + d')"
  proof (cases r)
    case (Inl f)
    with u d' show ?thesis by (simp add: bind_Inl)
  next
    case (Inr a)
    obtain s v where "k a u = Some (s, v)" "clock v \<le> clock u + d'"
      using k [of a] by (rule lastsE)
    with u Inr show ?thesis by (simp add: bind_Inr)
  qed
qed

lemma lasts_noexcept:
  assumes "lasts clock d m"
  shows "lasts clock d (noexcept m)"
proof (rule lastsI)
  fix w
  from assms obtain r u where u: "m w = Some (r, u)" "clock u \<le> clock w + d" by (rule lastsE)
  then show "\<exists>r w'. noexcept m w = Some (r, w') \<and> clock w' \<le> clock w + d"
    by (cases r) (auto simp: noexcept_def split: failure.split)
qed

lemma lasts_scoped:
  assumes body: "lasts clock d body" and dtor: "lasts clock d' dtor" and d': "0 \<le> d'"
  shows "lasts clock (d + d') (scoped body dtor)"
proof (rule lastsI)
  fix w
  from body obtain r u where u: "body w = Some (r, u)" "clock u \<le> clock w + d" by (rule lastsE)
  have then_dtor: "lasts clock (d' + 0) (bind (noexcept dtor) (\<lambda>_. k))"
    if "lasts clock 0 k" for k :: "('a, 'b, 'c) comp"
    by (rule lasts_bind [OF lasts_noexcept [OF dtor] that]) simp
  have "\<exists>s v. bind (noexcept dtor) (\<lambda>_. k) u = Some (s, v) \<and> clock v \<le> clock w + (d + d')"
    if "lasts clock 0 k" for k :: "('a, 'b, 'c) comp"
    using then_dtor [OF that] u(2) by (elim lastsE [of _ _ _ u]) force
  from this [OF lasts_ret] this [OF lasts_fail] u d'
  show "\<exists>r w'. scoped body dtor w = Some (r, w') \<and> clock w' \<le> clock w + (d + d')"
    by (cases r) (auto simp: scoped_def split: failure.split)
qed

section \<open>Decimal numerals\<close>

text \<open>\<open>std::to_string\<close> of an unsigned number.\<close>

fun to_string :: "nat \<Rightarrow> string" where
  "to_string n = (if n < 10 then [char_of (48 + n)] else to_string (n div 10) @ [char_of (48 + n mod 10)])"

declare to_string.simps [simp del]

text \<open>The overload for signed numbers.\<close>

definition to_string_int :: "int \<Rightarrow> string" where
  "to_string_int i = (if i < 0 then CHR ''-'' # to_string (nat (- i)) else to_string (nat i))"

section \<open>Signed integers at their width\<close>

text \<open>
  C++ divides towards zero.  \<open>sdiv_word\<close> and \<open>smod_word\<close> are \<open>/\<close> and \<open>%\<close> on
  two's complement words; results that fit are exact, which \<open>sint_of_int\<close> states once
  for all the range arguments.
\<close>

type_synonym size_t = "64 word"
type_synonym cint = "32 word"
type_synonym clong = "64 word"

definition sdiv_word :: "'a::len word \<Rightarrow> 'a word \<Rightarrow> 'a word" where
  "sdiv_word a b = word_of_int (sint a sdiv sint b)"

definition smod_word :: "'a::len word \<Rightarrow> 'a word \<Rightarrow> 'a word" where
  "smod_word a b = word_of_int (sint a smod sint b)"

text \<open>A result outside the range of a signed type is an overflow: undefined behaviour.\<close>

definition fits_long :: "int \<Rightarrow> bool" where
  "fits_long i \<longleftrightarrow> - 9223372036854775808 \<le> i \<and> i < 9223372036854775808"

lemma sint_of_int:
  assumes "- (2 ^ (LENGTH('a) - 1)) \<le> k" and "k < 2 ^ (LENGTH('a) - 1)"
  shows "sint (word_of_int k :: 'a::len word) = k"
  using assms by (simp add: sint_sbintrunc' signed_take_bit_int_eq_self)

lemma sint_add_exact:
  assumes "- (2 ^ (LENGTH('a) - 1)) \<le> sint a + sint b"
    and "sint a + sint b < 2 ^ (LENGTH('a) - 1)"
  shows "sint (a + b :: 'a::len word) = sint a + sint b"
  using assms by (simp add: sint_word_add signed_take_bit_int_eq_self)

lemma sint_mult_exact:
  assumes "- (2 ^ (LENGTH('a) - 1)) \<le> sint a * sint b"
    and "sint a * sint b < 2 ^ (LENGTH('a) - 1)"
  shows "sint (a * b :: 'a::len word) = sint a * sint b"
  using assms by (simp add: sint_word_mult signed_take_bit_int_eq_self)

lemma sint_scast_exact:
  assumes "- (2 ^ (LENGTH('b) - 1)) \<le> sint a" and "sint a < 2 ^ (LENGTH('b) - 1)"
  shows "sint (scast (a :: 'a::len word) :: 'b::len word) = sint a"
  using assms by (simp add: signed_scast_eq signed_take_bit_int_eq_self)

lemma sint_range32: "- 2147483648 \<le> sint (a :: 32 word) \<and> sint a < 2147483648"
  using sint_greater_eq [of a] sint_less [of a] by simp

lemma sdiv_nonneg: "0 \<le> a \<Longrightarrow> 0 < b \<Longrightarrow> a sdiv b = a div b" for a b :: int
  by (cases "a = 0") (simp_all add: signed_divide_int_def)

lemma smod_nonneg: "0 \<le> a \<Longrightarrow> 0 < b \<Longrightarrow> a smod b = a mod b" for a b :: int
  by (cases "a = 0") (simp_all add: signed_modulo_int_def)

lemma smod_bounds:
  fixes a b :: int
  assumes b: "0 < b"
  shows "- b < a smod b \<and> a smod b < b"
proof -
  define x where "x = \<bar>a\<bar> mod b"
  have "0 \<le> x" and "x < b" using b by (simp_all add: x_def)
  moreover have "a smod b = x \<or> a smod b = - x \<or> a smod b = 0"
    using b by (simp add: signed_modulo_int_def sgn_if x_def)
  ultimately show ?thesis using b by auto
qed

lemma smod_sign: "0 < b \<Longrightarrow> 0 \<le> a \<Longrightarrow> 0 \<le> a smod b" for a b :: int
  by (simp add: smod_nonneg)

lemma sdiv_smod: "a sdiv b * b + a smod b = a" for a b :: int
  by (rule sdiv_mult_smod_eq)

lemma sdiv_bounds: "0 < b \<Longrightarrow> - \<bar>a\<bar> \<le> a sdiv b \<and> a sdiv b \<le> \<bar>a\<bar>" for a b :: int
proof -
  assume b: "0 < b"
  have "\<bar>a\<bar> div b \<le> \<bar>a\<bar>" and "0 \<le> \<bar>a\<bar> div b"
    using b int_div_le_self [of "\<bar>a\<bar>" b] by (cases "a = 0"; simp add: pos_imp_zdiv_nonneg_iff)+
  then show ?thesis
    using b by (cases a "0 :: int" rule: linorder_cases) (simp_all add: signed_divide_int_def)
qed

text \<open>Small naturals are told apart by their 64-bit images.\<close>

lemma of_nat_size_t_inject:
  assumes "i < 2 ^ 64" and "j < 2 ^ 64"
  shows "(of_nat i :: size_t) = of_nat j \<longleftrightarrow> i = j"
  using assms by (simp add: word_of_nat_eq_iff take_bit_nat_eq_self)

lemma minus_one_size_t: "(- 1 :: size_t) = of_nat (2 ^ 64 - 1)"
  by simp

section \<open>Counting threads\<close>

text \<open>How many of finitely many threads satisfy a predicate, and how one update changes it.\<close>

definition how_many :: "('t::finite \<Rightarrow> bool) \<Rightarrow> nat" where
  "how_many Q = card {t. Q t}"

lemma how_many_eq_0: "how_many Q = 0 \<longleftrightarrow> (\<forall>t. \<not> Q t)"
  by (simp add: how_many_def)

lemma how_many_mono: "(\<And>t. Q t \<Longrightarrow> R t) \<Longrightarrow> how_many Q \<le> how_many R"
  unfolding how_many_def by (rule card_mono) auto

lemma how_many_other:
  "how_many Q = how_many (\<lambda>u. u \<noteq> t \<and> Q u) + (if Q t then 1 else 0)" for t :: "'t::finite"
proof (cases "Q t")
  case True
  then have "{u. Q u} = insert t {u. u \<noteq> t \<and> Q u}" by auto
  with True show ?thesis by (simp add: how_many_def)
next
  case False
  then have "{u. Q u} = {u. u \<noteq> t \<and> Q u}" by auto
  with False show ?thesis by (simp add: how_many_def)
qed

lemma how_many_upd:
  "how_many (\<lambda>u. Q ((f(t := x)) u)) + (if Q (f t) then 1 else 0)
     = how_many (\<lambda>u. Q (f u)) + (if Q x then 1 else 0)" for t :: "'t::finite"
proof -
  have "how_many (\<lambda>u. u \<noteq> t \<and> Q ((f(t := x)) u)) = how_many (\<lambda>u. u \<noteq> t \<and> Q (f u))"
    by (rule arg_cong [of _ _ how_many]) auto
  then show ?thesis
    using how_many_other [of "\<lambda>u. Q ((f(t := x)) u)" t] how_many_other [of "\<lambda>u. Q (f u)" t]
    by simp
qed

lemma how_many_strict:
  assumes "\<And>u. Q u \<Longrightarrow> R u" and "R t" and "\<not> Q t"
  shows "how_many Q < how_many R"
  unfolding how_many_def using assms by (intro psubset_card_mono) auto

text \<open>The same for a sum of weights.\<close>

text \<open>A sum over all threads of which one changes.\<close>

lemma sum_change:
  fixes f g :: "'t::finite \<Rightarrow> 'b::comm_monoid_add"
  assumes "\<And>u. u \<noteq> t \<Longrightarrow> f u = g u"
  shows "(\<Sum>u\<in>UNIV. f u) + g t = (\<Sum>u\<in>UNIV. g u) + f t"
proof -
  have "(\<Sum>u\<in>UNIV - {t}. f u) = (\<Sum>u\<in>UNIV - {t}. g u)"
    using assms by (intro sum.cong) auto
  then show ?thesis by (simp add: sum.remove [of UNIV t] ac_simps)
qed

lemma sum_upd:
  "(\<Sum>u\<in>UNIV. (W ((f(t := x)) u) :: nat)) + W (f t) = (\<Sum>u\<in>UNIV. W (f u)) + W x"
  for t :: "'t::finite"
  using sum_change [of t "\<lambda>u. W ((f(t := x)) u)" "\<lambda>u. W (f u)"] by simp

end
