(* ===== verification/Pthread_Exceptions.thy ===== *)
theory Pthread_Exceptions
  imports Cxx_Prelude
begin

text \<open>
  The exception classes (include/pthread/exceptions.hpp, src/exceptions.cpp).  An exception
  object is its class and the fields its constructor sets.  \<open>strerror\<close> is the C library's
  table of messages: its text is not part of this code, so it is an argument.
\<close>

named_theorems exception_defs
named_theorems errno_defs

text \<open>
  The error numbers the library names (\<open>cerrno\<close>), with their Linux values: the code relies
  on their being positive and different only.
\<close>

definition EPERM :: int where [errno_defs]: "EPERM = 1"
definition ESRCH :: int where [errno_defs]: "ESRCH = 3"
definition EBUSY :: int where [errno_defs]: "EBUSY = 16"
definition EINVAL :: int where [errno_defs]: "EINVAL = 22"
definition EDEADLK :: int where [errno_defs]: "EDEADLK = 35"
definition ETIMEDOUT :: int where [errno_defs]: "ETIMEDOUT = 110"

lemma errno_nonzero [simp]:
  "EPERM \<noteq> 0" "ESRCH \<noteq> 0" "EBUSY \<noteq> 0" "EINVAL \<noteq> 0" "EDEADLK \<noteq> 0" "ETIMEDOUT \<noteq> 0"
  by (simp_all add: errno_defs)

lemma errno_distinct [simp]:
  "ETIMEDOUT \<noteq> EINVAL" "EINVAL \<noteq> ETIMEDOUT" "ETIMEDOUT \<noteq> EPERM" "EPERM \<noteq> ETIMEDOUT"
  "EINVAL \<noteq> EPERM" "EPERM \<noteq> EINVAL" "EDEADLK \<noteq> EINVAL" "EINVAL \<noteq> EDEADLK"
  "EDEADLK \<noteq> ESRCH" "ESRCH \<noteq> EDEADLK" "EINVAL \<noteq> ESRCH" "ESRCH \<noteq> EINVAL"
  "EBUSY \<noteq> EPERM" "EPERM \<noteq> EBUSY"
  by (simp_all add: errno_defs)

section \<open>The classes\<close>

text \<open>\<open>pthread_exception\<close> and the classes derived from it.\<close>

datatype pthread_exception_class =
    Base_exception
  | Timeout_exception
  | Mutex_exception
  | Read_write_lock_exception
  | Condition_variable_exception
  | Thread_exception

record pthread_exception_fields =
  pe_message :: string
  pe_error_number :: int

text \<open>\<open>util::queue_exception\<close> and the classes derived from it.\<close>

datatype queue_exception_class = Queue_base | Queue_full | Queue_timeout

text \<open>Any exception the library throws; the two hierarchies share only \<open>std::exception\<close>.\<close>

datatype exn =
    Pthread_exn pthread_exception_class pthread_exception_fields
  | Queue_exn queue_exception_class string

section \<open>Constructors\<close>

text \<open>\<open>std::string::find_last_of\<close>: the last position of a character, or \<open>npos\<close>.\<close>

definition npos :: size_t where
  "npos = - 1"

primrec last_index_of :: "char \<Rightarrow> string \<Rightarrow> nat option" where
  "last_index_of c [] = None"
| "last_index_of c (x # xs) =
     (case last_index_of c xs of
        Some i \<Rightarrow> Some (Suc i)
      | None \<Rightarrow> if x = c then Some 0 else None)"

definition find_last_of :: "char \<Rightarrow> string \<Rightarrow> size_t" where
  "find_last_of c s = (case last_index_of c s of None \<Rightarrow> npos | Some i \<Rightarrow> of_nat i)"

definition string_size :: "string \<Rightarrow> size_t" where
  "string_size s = of_nat (length s)"

text \<open>
  The constructor of the base class: with an error number, the system's message is
  appended after a separator that depends on where the last period is.
\<close>

definition pthread_exception_init :: "(int \<Rightarrow> string) \<Rightarrow> string \<Rightarrow> int \<Rightarrow> pthread_exception_fields" where
  "pthread_exception_init strerr message error_number =
     (if error_number \<noteq> 0 then
        let pos = find_last_of (CHR ''.'') message;
            separator = (if pos = string_size message - 1 then '' '' else ''. '')
        in \<lparr>pe_message = message @ separator @ strerr error_number, pe_error_number = error_number\<rparr>
      else \<lparr>pe_message = message, pe_error_number = error_number\<rparr>)"

definition pthread_exception :: "(int \<Rightarrow> string) \<Rightarrow> string \<Rightarrow> int \<Rightarrow> exn" where
  "pthread_exception strerr message error_number =
     Pthread_exn Base_exception (pthread_exception_init strerr message error_number)"

definition timeout_exception :: "(int \<Rightarrow> string) \<Rightarrow> string \<Rightarrow> exn" where
  "timeout_exception strerr message =
     Pthread_exn Timeout_exception (pthread_exception_init strerr message ETIMEDOUT)"

definition mutex_exception :: "(int \<Rightarrow> string) \<Rightarrow> string \<Rightarrow> int \<Rightarrow> exn" where
  "mutex_exception strerr message error_number =
     Pthread_exn Mutex_exception (pthread_exception_init strerr message error_number)"

definition read_write_lock_exception :: "(int \<Rightarrow> string) \<Rightarrow> string \<Rightarrow> int \<Rightarrow> exn" where
  "read_write_lock_exception strerr message error_number =
     Pthread_exn Read_write_lock_exception (pthread_exception_init strerr message error_number)"

definition condition_variable_exception :: "(int \<Rightarrow> string) \<Rightarrow> string \<Rightarrow> int \<Rightarrow> exn" where
  "condition_variable_exception strerr message error_number =
     Pthread_exn Condition_variable_exception (pthread_exception_init strerr message error_number)"

definition thread_exception :: "(int \<Rightarrow> string) \<Rightarrow> string \<Rightarrow> int \<Rightarrow> exn" where
  "thread_exception strerr message error_number =
     Pthread_exn Thread_exception (pthread_exception_init strerr message error_number)"

text \<open>The default arguments of the declarations, written out where the code omits them.\<close>

definition pthread_exception_default_error :: int where
  "pthread_exception_default_error = 0"

definition mutex_exception_default_error :: int where
  "mutex_exception_default_error = 0"

definition read_write_lock_exception_default_error :: int where
  "read_write_lock_exception_default_error = - 1"

definition condition_variable_exception_default_error :: int where
  "condition_variable_exception_default_error = 0"

definition condition_variable_exception_default_message :: string where
  "condition_variable_exception_default_message = ''conditional_variable_exception''"

definition thread_exception_default_error :: int where
  "thread_exception_default_error = - 1"

definition queue_exception_default_message :: string where
  "queue_exception_default_message = ''queue_error occured.''"

definition queue_full_default_message :: string where
  "queue_full_default_message = ''synchronized_queue full.''"

definition queue_timeout_default_message :: string where
  "queue_timeout_default_message = ''synchronized_queue get/put timed out.''"

definition queue_exception :: "string \<Rightarrow> exn" where
  "queue_exception msg = Queue_exn Queue_base msg"

definition queue_full :: "string \<Rightarrow> exn" where
  "queue_full msg = Queue_exn Queue_full msg"

definition queue_timeout :: "string \<Rightarrow> exn" where
  "queue_timeout msg = Queue_exn Queue_timeout msg"

section \<open>Observers and handlers\<close>

fun what :: "exn \<Rightarrow> string" where
  "what (Pthread_exn _ e) = pe_message e"
| "what (Queue_exn _ msg) = msg"

fun error_number :: "exn \<Rightarrow> int option" where
  "error_number (Pthread_exn _ e) = Some (pe_error_number e)"
| "error_number (Queue_exn _ _) = None"

fun error_message :: "(int \<Rightarrow> string) \<Rightarrow> exn \<Rightarrow> string option" where
  "error_message strerr (Pthread_exn _ e) = Some (strerr (pe_error_number e))"
| "error_message strerr (Queue_exn _ _) = None"

text \<open>Which handler \<open>catch (pthread_exception &)\<close> takes: the class itself or a derived one.\<close>

fun is_pthread_exception :: "exn \<Rightarrow> bool" where
  "is_pthread_exception (Pthread_exn _ _) = True"
| "is_pthread_exception (Queue_exn _ _) = False"

lemmas pthread_exception_ctors [exception_defs] =
  pthread_exception_def timeout_exception_def mutex_exception_def
  read_write_lock_exception_def condition_variable_exception_def thread_exception_def

lemmas exception_defaults [exception_defs] =
  pthread_exception_default_error_def mutex_exception_default_error_def
  read_write_lock_exception_default_error_def condition_variable_exception_default_error_def
  thread_exception_default_error_def

lemmas queue_exception_ctors [exception_defs] =
  queue_exception_def queue_full_def queue_timeout_def

section \<open>Where the last period is\<close>

lemma last_index_of_bound: "last_index_of c s = Some i \<Longrightarrow> i < length s"
  by (induction s arbitrary: i) (auto split: option.splits if_splits)

lemma last_index_of_snoc:
  "last_index_of c (s @ [x]) = (if x = c then Some (length s) else last_index_of c s)"
  by (induction s) auto

text \<open>
  The test \<open>pos == _message.size() - 1\<close> on unsigned 64-bit values: it also holds for the
  empty message, where both sides are the largest \<open>size_t\<close>.
\<close>

lemma find_last_of_at_end:
  assumes "length s < 2 ^ 64"
  shows "find_last_of c s = string_size s - 1 \<longleftrightarrow> s = [] \<or> last s = c"
proof (cases s rule: rev_cases)
  case Nil
  then show ?thesis by (simp add: find_last_of_def string_size_def npos_def)
next
  case (snoc ys y)
  with assms have len: "length ys < 2 ^ 64 - 1" by simp
  have size: "string_size s - 1 = of_nat (length ys)"
    by (simp add: snoc string_size_def)
  show ?thesis
  proof (cases "last_index_of c ys")
    case None
    have "(- 1 :: size_t) \<noteq> of_nat (length ys)"
      unfolding minus_one_size_t using len by (subst of_nat_size_t_inject) auto
    with None size show ?thesis
      by (simp add: snoc find_last_of_def last_index_of_snoc npos_def)
  next
    case (Some i)
    then have "i < length ys" by (rule last_index_of_bound)
    with len have "(of_nat i :: size_t) \<noteq> of_nat (length ys)"
      by (subst of_nat_size_t_inject) auto
    with Some size show ?thesis
      by (simp add: snoc find_last_of_def last_index_of_snoc)
  qed
qed

lemma pe_error_number_init [simp]: "pe_error_number (pthread_exception_init strerr m n) = n"
  by (simp add: pthread_exception_init_def Let_def)

section \<open>The message of an exception\<close>

text \<open>C40: with an error number the message of the system is appended, after a period and a
  space, or after a space alone when the message ends with a period or is empty; without one the
  message is kept as it is.  The error number is stored unchanged.\<close>

theorem exception_message:
  assumes "length message < 2 ^ 64"
  shows "pthread_exception_init strerr message n = \<lparr>
      pe_message = (if n = 0 then message
        else message @ (if message = [] \<or> last message = CHR ''.'' then '' '' else ''. '') @ strerr n),
      pe_error_number = n\<rparr>"
  using find_last_of_at_end [OF assms, of "CHR ''.''"]
  by (simp add: pthread_exception_init_def Let_def)

lemma exception_message_witness:
  "what (mutex_exception (\<lambda>n. ''no'') ''it failed'' 1) = ''it failed. no''"
  using exception_message [of "''it failed''" "\<lambda>n. ''no''" 1]
  by (simp add: mutex_exception_def)

end
