(* ===== verification/Posix.thy ===== *)
theory Posix
  imports Pthread_Exceptions
begin

text \<open>
  The functions of pthread.h, sys/time.h and string.h that the library calls.  They are not
  part of this code, so they are arguments of every definition that uses them: records of
  functions over a world \<open>'w\<close> nobody looks into.  A call takes the calling thread where
  POSIX makes the result depend on it, and gives a return code; a call that can block has
  an \<open>option\<close> result, \<open>None\<close> when it does not return.  Objects (\<open>pthread_mutex_t\<close> and
  its kin) are named by their addresses.  What POSIX documents about the calls is stated as
  locales: nothing in the definitions depends on it.
\<close>

type_synonym pthread_t = "64 word"
type_synonym addr = nat

record timeval =
  now_sec :: clong
  now_usec :: clong

record timespec =
  tv_sec :: clong
  tv_nsec :: clong

section \<open>The calls\<close>

record posix_errors =
  strerror :: "int \<Rightarrow> string"

record 'w mutex_api = posix_errors +
  pthread_mutex_init :: "addr \<Rightarrow> 'w \<Rightarrow> int \<times> 'w"
  pthread_mutex_destroy :: "addr \<Rightarrow> 'w \<Rightarrow> int \<times> 'w"
  pthread_mutex_lock :: "pthread_t \<Rightarrow> addr \<Rightarrow> 'w \<Rightarrow> (int \<times> 'w) option"
  pthread_mutex_trylock :: "pthread_t \<Rightarrow> addr \<Rightarrow> 'w \<Rightarrow> int \<times> 'w"
  pthread_mutex_unlock :: "pthread_t \<Rightarrow> addr \<Rightarrow> 'w \<Rightarrow> int \<times> 'w"

text \<open>
  The waiting calls take the address of the condition, of the mutex and, with a deadline,
  the \<open>timespec\<close> the caller's pointer leads to when the call is made.
\<close>

record 'w cond_api = "'w mutex_api" +
  pthread_cond_init :: "addr \<Rightarrow> 'w \<Rightarrow> int \<times> 'w"
  pthread_cond_destroy :: "addr \<Rightarrow> 'w \<Rightarrow> int \<times> 'w"
  pthread_cond_wait :: "pthread_t \<Rightarrow> addr \<Rightarrow> addr \<Rightarrow> 'w \<Rightarrow> (int \<times> 'w) option"
  pthread_cond_timedwait :: "pthread_t \<Rightarrow> addr \<Rightarrow> addr \<Rightarrow> timespec \<Rightarrow> 'w \<Rightarrow> (int \<times> 'w) option"
  pthread_cond_signal :: "addr \<Rightarrow> 'w \<Rightarrow> int \<times> 'w"
  pthread_cond_broadcast :: "addr \<Rightarrow> 'w \<Rightarrow> int \<times> 'w"
  gettimeofday :: "'w \<Rightarrow> (int \<times> timeval) \<times> 'w"

record 'w rwlock_api = posix_errors +
  pthread_rwlock_init :: "addr \<Rightarrow> 'w \<Rightarrow> int \<times> 'w"
  pthread_rwlock_destroy :: "addr \<Rightarrow> 'w \<Rightarrow> int \<times> 'w"
  pthread_rwlock_rdlock :: "pthread_t \<Rightarrow> addr \<Rightarrow> 'w \<Rightarrow> (int \<times> 'w) option"
  pthread_rwlock_wrlock :: "pthread_t \<Rightarrow> addr \<Rightarrow> 'w \<Rightarrow> (int \<times> 'w) option"
  pthread_rwlock_tryrdlock :: "pthread_t \<Rightarrow> addr \<Rightarrow> 'w \<Rightarrow> int \<times> 'w"
  pthread_rwlock_trywrlock :: "pthread_t \<Rightarrow> addr \<Rightarrow> 'w \<Rightarrow> int \<times> 'w"
  pthread_rwlock_unlock :: "pthread_t \<Rightarrow> addr \<Rightarrow> 'w \<Rightarrow> int \<times> 'w"

text \<open>
  Threads.  A \<open>pthread_attr_t\<close> is a value of a type \<open>'at\<close> nobody looks into; a call that
  gets its address takes the value and returns the new one.  \<open>pthread_create\<close> gets the
  creating thread, the attributes and the argument of the start routine, which is always
  \<open>thread_startup_runnable\<close>; it returns the code and what it wrote to the identifier.
  \<open>usleep\<close> and \<open>sleep\<close> take unsigned values.  \<open>pthread_stack_min\<close> is the macro
  \<open>PTHREAD_STACK_MIN\<close> of limits.h.
\<close>

record ('at, 'w) thread_api = posix_errors +
  pthread_attr_init :: "'w \<Rightarrow> (int \<times> 'at) \<times> 'w"
  pthread_attr_destroy :: "'at \<Rightarrow> 'w \<Rightarrow> (int \<times> 'at) \<times> 'w"
  pthread_attr_setdetachstate :: "int \<Rightarrow> 'at \<Rightarrow> 'w \<Rightarrow> (int \<times> 'at) \<times> 'w"
  pthread_attr_setstacksize :: "size_t \<Rightarrow> 'at \<Rightarrow> 'w \<Rightarrow> (int \<times> 'at) \<times> 'w"
  pthread_attr_getstacksize :: "'at \<Rightarrow> 'w \<Rightarrow> (int \<times> size_t) \<times> 'w"
  pthread_create :: "pthread_t \<Rightarrow> 'at \<Rightarrow> addr \<Rightarrow> 'w \<Rightarrow> (int \<times> pthread_t) \<times> 'w"
  pthread_join :: "pthread_t \<Rightarrow> pthread_t \<Rightarrow> 'w \<Rightarrow> (int \<times> 'w) option"
  usleep :: "32 word \<Rightarrow> 'w \<Rightarrow> int \<times> 'w"
  sleep :: "32 word \<Rightarrow> 'w \<Rightarrow> int \<times> 'w"
  errno :: "'w \<Rightarrow> int"
  pthread_stack_min :: size_t

definition PTHREAD_CREATE_JOINABLE :: int where
  "PTHREAD_CREATE_JOINABLE = 0"

section \<open>What POSIX documents\<close>

text \<open>
  A mutex has at most one owner.  A \<open>lock\<close> that returns 0 to a thread that did not
  own the mutex has made it the owner; a
  \<open>trylock\<close> returns 0 exactly when nobody, the caller included, owned the mutex, and
  \<open>EBUSY\<close> without an effect otherwise; the owner's \<open>unlock\<close> succeeds.
\<close>

locale posix_mutex =
  fixes P :: "('w, 'z) mutex_api_scheme" and owner :: "'w \<Rightarrow> addr \<Rightarrow> pthread_t option"
  assumes lock_acquires:
      "owner w m \<noteq> Some t \<Longrightarrow> pthread_mutex_lock P t m w = Some (0, w') \<Longrightarrow> owner w' m = Some t"
    and trylock_free:
      "owner w m = None \<Longrightarrow>
         \<exists>w'. pthread_mutex_trylock P t m w = (0, w') \<and> owner w' m = Some t"
    and trylock_busy:
      "owner w m \<noteq> None \<Longrightarrow> pthread_mutex_trylock P t m w = (EBUSY, w)"
    and unlock_releases:
      "owner w m = Some t \<Longrightarrow>
         \<exists>w'. pthread_mutex_unlock P t m w = (0, w') \<and> owner w' m = None"

text \<open>
  A read-write lock is held by one writer or by readers, a thread possibly several times:
  \<open>readers w l t\<close> counts the read locks of thread \<open>t\<close>.  \<open>unlock\<close> gives back one hold.  A
  \<open>tryrdlock\<close> never succeeds while a writer holds the lock; without a writer it may be refused all
  the same, because a writer is waiting (\<open>EBUSY\<close>) or there are too many readers (\<open>EAGAIN\<close>), and
  then changes no hold; on a lock nobody holds there is neither.
\<close>

locale posix_rwlock =
  fixes P :: "('w, 'z) rwlock_api_scheme"
    and writer :: "'w \<Rightarrow> addr \<Rightarrow> pthread_t option"
    and readers :: "'w \<Rightarrow> addr \<Rightarrow> pthread_t \<Rightarrow> nat"
  assumes exclusive: "writer w l \<noteq> None \<Longrightarrow> readers w l = (\<lambda>_. 0)"
    and rdlock_acquires:
      "pthread_rwlock_rdlock P t l w = Some (0, w') \<Longrightarrow> readers w' l t = Suc (readers w l t)"
    and wrlock_acquires:
      "pthread_rwlock_wrlock P t l w = Some (0, w') \<Longrightarrow> writer w' l = Some t"
    and tryrdlock_shares:
      "writer w l = None \<Longrightarrow> pthread_rwlock_tryrdlock P t l w = (rc, w') \<Longrightarrow>
         if rc = 0 then readers w' l = (readers w l)(t := Suc (readers w l t))
         else writer w' l = None \<and> readers w' l = readers w l"
    and tryrdlock_free:
      "writer w l = None \<Longrightarrow> readers w l = (\<lambda>_. 0) \<Longrightarrow>
         \<exists>w'. pthread_rwlock_tryrdlock P t l w = (0, w')"
    and tryrdlock_busy:
      "writer w l \<noteq> None \<Longrightarrow> pthread_rwlock_tryrdlock P t l w = (EBUSY, w)"
    and trywrlock_free:
      "writer w l = None \<Longrightarrow> readers w l = (\<lambda>_. 0) \<Longrightarrow>
         \<exists>w'. pthread_rwlock_trywrlock P t l w = (0, w') \<and> writer w' l = Some t"
    and trywrlock_busy:
      "writer w l \<noteq> None \<or> readers w l \<noteq> (\<lambda>_. 0) \<Longrightarrow>
         pthread_rwlock_trywrlock P t l w = (EBUSY, w)"
    and unlock_reader:
      "readers w l t = Suc n \<Longrightarrow> \<exists>w'. pthread_rwlock_unlock P t l w = (0, w') \<and> readers w' l t = n"
    and unlock_writer:
      "writer w l = Some t \<Longrightarrow> \<exists>w'. pthread_rwlock_unlock P t l w = (0, w') \<and> writer w' l = None"

text \<open>
  The same lock as several threads see it, one call after the other: a call that returns has been
  granted at that moment and has changed nothing but the hold of its caller, one that fails has
  changed no hold at all, and nobody is kept waiting at a free lock.
\<close>

locale posix_rw_holds = posix_rwlock P writer readers
  for P :: "('w, 'z) rwlock_api_scheme" and writer and readers +
  assumes rdlock_grants:
      "pthread_rwlock_rdlock P t l w = Some (rc, w') \<Longrightarrow>
         if rc = 0 then writer w l = None \<and> writer w' l = None
           \<and> readers w' l = (readers w l)(t := Suc (readers w l t))
         else writer w' l = writer w l \<and> readers w' l = readers w l"
    and wrlock_grants:
      "pthread_rwlock_wrlock P t l w = Some (rc, w') \<Longrightarrow>
         if rc = 0 then writer w l = None \<and> readers w l = (\<lambda>_. 0)
           \<and> writer w' l = Some t \<and> readers w' l = (\<lambda>_. 0)
         else writer w' l = writer w l \<and> readers w' l = readers w l"
    and free_lock_is_granted:
      "writer w l = None \<Longrightarrow> readers w l = (\<lambda>_. 0) \<Longrightarrow>
         (\<exists>w'. pthread_rwlock_rdlock P t l w = Some (0, w'))
         \<and> (\<exists>w'. pthread_rwlock_wrlock P t l w = Some (0, w'))"
    and reader_unlocks:
      "readers w l t = Suc n \<Longrightarrow> pthread_rwlock_unlock P t l w = (rc, w') \<Longrightarrow>
         writer w' l = None \<and> readers w' l = (readers w l)(t := n)"
    and writer_unlocks:
      "writer w l = Some t \<Longrightarrow> pthread_rwlock_unlock P t l w = (rc, w') \<Longrightarrow> readers w' l = (\<lambda>_. 0)"

text \<open>
  Threads: the identifier of a created thread is not 0 (POSIX leaves the type open; the class
  takes 0 for "no thread").  \<open>live\<close> counts the attribute objects that are initialised: a
  successful \<open>init\<close> makes one more, \<open>destroy\<close> one less, and no other call changes it.
\<close>

locale posix_threads =
  fixes P :: "('at, 'w, 'z) thread_api_scheme" and live :: "'w \<Rightarrow> int"
  assumes create_nonzero:
      "pthread_create P t a runner w = ((0, tid), w') \<Longrightarrow> tid \<noteq> 0"
    and init_live:
      "pthread_attr_init P w = ((rc, a), w') \<Longrightarrow> live w' = (if rc = 0 then live w + 1 else live w)"
    and destroy_live:
      "pthread_attr_destroy P a w = ((rc, a'), w') \<Longrightarrow> live w' = live w - 1"
    and setdetachstate_live:
      "pthread_attr_setdetachstate P st a w = ((rc, a'), w') \<Longrightarrow> live w' = live w"
    and setstacksize_live:
      "pthread_attr_setstacksize P sz a w = ((rc, a'), w') \<Longrightarrow> live w' = live w"
    and create_live:
      "pthread_create P t a runner w = ((rc, tid), w') \<Longrightarrow> live w' = live w"
    and join_live:
      "pthread_join P t u w = Some (rc, w') \<Longrightarrow> live w' = live w"

text \<open>
  The life of a mutex, a condition or a read-write lock: memory that is no object yet, an object
  nobody uses, and one in use, which is locked or waited for.  \<open>init\<close> is defined on memory that is
  not initialised and may fail; \<open>destroy\<close> succeeds on an object nobody uses, and may refuse one in
  use (\<open>EBUSY\<close>), which then stays as it is.  A call changes no other object.
\<close>

datatype object_state = Uninitialised | Unused | In_use

locale posix_lifetimes =
  fixes P :: "('w, 'z) cond_api_scheme" and state :: "'w \<Rightarrow> addr \<Rightarrow> object_state"
  assumes mutex_init_state:
      "state w m = Uninitialised \<Longrightarrow> pthread_mutex_init P m w = (rc, w') \<Longrightarrow>
         state w' = (if rc = 0 then (state w)(m := Unused) else state w)"
    and mutex_destroy_unused:
      "state w m = Unused \<Longrightarrow>
         \<exists>w'. pthread_mutex_destroy P m w = (0, w') \<and> state w' = (state w)(m := Uninitialised)"
    and cond_init_state:
      "state w c = Uninitialised \<Longrightarrow> pthread_cond_init P c w = (rc, w') \<Longrightarrow>
         state w' = (if rc = 0 then (state w)(c := Unused) else state w)"
    and cond_destroy_unused:
      "state w c = Unused \<Longrightarrow>
         \<exists>w'. pthread_cond_destroy P c w = (0, w') \<and> state w' = (state w)(c := Uninitialised)"
    and cond_destroy_refused:
      "state w c = In_use \<Longrightarrow> pthread_cond_destroy P c w = (rc, w') \<Longrightarrow> rc \<noteq> 0 \<Longrightarrow> state w' = state w"

text \<open>The same with read-write locks, as the older build of the queue has one.\<close>

locale posix_rw_lifetimes = posix_lifetimes P state
  for P :: "('w, 'z) cond_api_scheme" and state +
  fixes R :: "('w, 'y) rwlock_api_scheme"
  assumes rwlock_init_state:
      "state w l = Uninitialised \<Longrightarrow> pthread_rwlock_init R l w = (rc, w') \<Longrightarrow>
         state w' = (if rc = 0 then (state w)(l := Unused) else state w)"
    and rwlock_destroy_unused:
      "state w l = Unused \<Longrightarrow>
         \<exists>w'. pthread_rwlock_destroy R l w = (0, w') \<and> state w' = (state w)(l := Uninitialised)"

end
