(* ===== verification/Posix_Reference.thy ===== *)
theory Posix_Reference
  imports Posix
begin

text \<open>
  A reference instance of the operating system's functions, small enough to compute with: the
  laws of the theory of the interfaces hold of it, and the concrete instances of the theorems
  run on it.  Its state is the kernel part of a world; a world that also holds the memory of
  the program is looked at through a pair of functions \<open>get\<close> and \<open>put\<close>.  What other threads
  do while a thread waits is the argument \<open>env\<close>: it gives the change of the world made before
  the \<open>n\<close>-th wait ends, or \<open>None\<close> if nobody ever notifies.
\<close>

section \<open>The state of the kernel\<close>

datatype rw_state = Writer pthread_t | Readers "pthread_t \<Rightarrow> nat"

record kernel =
  k_owner :: "addr \<Rightarrow> pthread_t option"
  k_rw :: "addr \<Rightarrow> rw_state"
  k_now :: timeval
  k_waits :: nat
  k_objects :: "addr \<Rightarrow> object_state"

definition kernel0 :: kernel where
  "kernel0 = \<lparr>k_owner = (\<lambda>_. None), k_rw = (\<lambda>_. Readers (\<lambda>_. 0)),
     k_now = \<lparr>now_sec = 100, now_usec = 999999\<rparr>, k_waits = 0,
     k_objects = (\<lambda>_. Uninitialised)\<rparr>"

fun writer_of :: "rw_state \<Rightarrow> pthread_t option" where
  "writer_of (Writer t) = Some t"
| "writer_of (Readers r) = None"

fun readers_of :: "rw_state \<Rightarrow> pthread_t \<Rightarrow> nat" where
  "readers_of (Writer t) = (\<lambda>_. 0)"
| "readers_of (Readers r) = r"

lemma rw_exclusive: "writer_of x \<noteq> None \<Longrightarrow> readers_of x = (\<lambda>_. 0)"
  by (cases x) auto

section \<open>The calls\<close>

text \<open>Mutexes that report a second lock by their owner and an unlock by another thread.\<close>

definition ref_lock :: "('w \<Rightarrow> kernel) \<Rightarrow> (kernel \<Rightarrow> 'w \<Rightarrow> 'w) \<Rightarrow> pthread_t \<Rightarrow> addr \<Rightarrow> 'w \<Rightarrow> (int \<times> 'w) option" where
  "ref_lock get put t m w = (let k = get w in
     case k_owner k m of
       None \<Rightarrow> Some (0, put (k\<lparr>k_owner := (k_owner k)(m := Some t)\<rparr>) w)
     | Some u \<Rightarrow> if u = t then Some (EDEADLK, w) else None)"

definition ref_trylock :: "('w \<Rightarrow> kernel) \<Rightarrow> (kernel \<Rightarrow> 'w \<Rightarrow> 'w) \<Rightarrow> pthread_t \<Rightarrow> addr \<Rightarrow> 'w \<Rightarrow> int \<times> 'w" where
  "ref_trylock get put t m w = (let k = get w in
     case k_owner k m of
       None \<Rightarrow> (0, put (k\<lparr>k_owner := (k_owner k)(m := Some t)\<rparr>) w)
     | Some _ \<Rightarrow> (EBUSY, w))"

definition ref_unlock :: "('w \<Rightarrow> kernel) \<Rightarrow> (kernel \<Rightarrow> 'w \<Rightarrow> 'w) \<Rightarrow> pthread_t \<Rightarrow> addr \<Rightarrow> 'w \<Rightarrow> int \<times> 'w" where
  "ref_unlock get put t m w = (let k = get w in
     if k_owner k m = Some t then (0, put (k\<lparr>k_owner := (k_owner k)(m := None)\<rparr>) w)
     else (EPERM, w))"

text \<open>A wait by the owner of the mutex: the others act, and the thread owns the mutex again.\<close>

definition ref_wait ::
  "('w \<Rightarrow> kernel) \<Rightarrow> (kernel \<Rightarrow> 'w \<Rightarrow> 'w) \<Rightarrow> (nat \<Rightarrow> ('w \<Rightarrow> 'w) option)
     \<Rightarrow> pthread_t \<Rightarrow> addr \<Rightarrow> addr \<Rightarrow> 'w \<Rightarrow> (int \<times> 'w) option" where
  "ref_wait get put env t c m w = (let k = get w in
     if k_owner k m \<noteq> Some t then Some (EPERM, w)
     else case env (k_waits k) of
         None \<Rightarrow> None
       | Some f \<Rightarrow> Some (0, f (put (k\<lparr>k_waits := Suc (k_waits k)\<rparr>) w)))"

definition ref_timedwait ::
  "('w \<Rightarrow> kernel) \<Rightarrow> (kernel \<Rightarrow> 'w \<Rightarrow> 'w) \<Rightarrow> (nat \<Rightarrow> ('w \<Rightarrow> 'w) option)
     \<Rightarrow> pthread_t \<Rightarrow> addr \<Rightarrow> addr \<Rightarrow> timespec \<Rightarrow> 'w \<Rightarrow> (int \<times> 'w) option" where
  "ref_timedwait get put env t c m abstime w = (let k = get w in
     if sint (tv_nsec abstime) < 0 \<or> 1000000000 \<le> sint (tv_nsec abstime) then Some (EINVAL, w)
     else if k_owner k m \<noteq> Some t then Some (EPERM, w)
     else case env (k_waits k) of
         None \<Rightarrow> Some (ETIMEDOUT, put (k\<lparr>k_now :=
             \<lparr>now_sec = tv_sec abstime, now_usec = sdiv_word (tv_nsec abstime) 1000\<rparr>\<rparr>) w)
       | Some f \<Rightarrow> Some (0, f (put (k\<lparr>k_waits := Suc (k_waits k)\<rparr>) w)))"

definition ref_rdlock :: "('w \<Rightarrow> kernel) \<Rightarrow> (kernel \<Rightarrow> 'w \<Rightarrow> 'w) \<Rightarrow> pthread_t \<Rightarrow> addr \<Rightarrow> 'w \<Rightarrow> (int \<times> 'w) option" where
  "ref_rdlock get put t l w = (let k = get w in
     case k_rw k l of
       Writer u \<Rightarrow> if u = t then Some (EDEADLK, w) else None
     | Readers r \<Rightarrow> Some (0, put (k\<lparr>k_rw := (k_rw k)(l := Readers (r(t := Suc (r t))))\<rparr>) w))"

definition ref_wrlock :: "('w \<Rightarrow> kernel) \<Rightarrow> (kernel \<Rightarrow> 'w \<Rightarrow> 'w) \<Rightarrow> pthread_t \<Rightarrow> addr \<Rightarrow> 'w \<Rightarrow> (int \<times> 'w) option" where
  "ref_wrlock get put t l w = (let k = get w in
     case k_rw k l of
       Writer u \<Rightarrow> if u = t then Some (EDEADLK, w) else None
     | Readers r \<Rightarrow>
         if r t = 0 \<and> (\<forall>u. r u = 0) then Some (0, put (k\<lparr>k_rw := (k_rw k)(l := Writer t)\<rparr>) w)
         else if r t \<noteq> 0 then Some (EDEADLK, w) else None)"

definition ref_tryrdlock :: "('w \<Rightarrow> kernel) \<Rightarrow> (kernel \<Rightarrow> 'w \<Rightarrow> 'w) \<Rightarrow> pthread_t \<Rightarrow> addr \<Rightarrow> 'w \<Rightarrow> int \<times> 'w" where
  "ref_tryrdlock get put t l w = (let k = get w in
     case k_rw k l of
       Writer u \<Rightarrow> (EBUSY, w)
     | Readers r \<Rightarrow> (0, put (k\<lparr>k_rw := (k_rw k)(l := Readers (r(t := Suc (r t))))\<rparr>) w))"

definition ref_trywrlock :: "('w \<Rightarrow> kernel) \<Rightarrow> (kernel \<Rightarrow> 'w \<Rightarrow> 'w) \<Rightarrow> pthread_t \<Rightarrow> addr \<Rightarrow> 'w \<Rightarrow> int \<times> 'w" where
  "ref_trywrlock get put t l w = (let k = get w in
     case k_rw k l of
       Writer u \<Rightarrow> (EBUSY, w)
     | Readers r \<Rightarrow>
         if \<forall>u. r u = 0 then (0, put (k\<lparr>k_rw := (k_rw k)(l := Writer t)\<rparr>) w) else (EBUSY, w))"

definition ref_rwunlock :: "('w \<Rightarrow> kernel) \<Rightarrow> (kernel \<Rightarrow> 'w \<Rightarrow> 'w) \<Rightarrow> pthread_t \<Rightarrow> addr \<Rightarrow> 'w \<Rightarrow> int \<times> 'w" where
  "ref_rwunlock get put t l w = (let k = get w in
     case k_rw k l of
       Writer u \<Rightarrow>
         if u = t then (0, put (k\<lparr>k_rw := (k_rw k)(l := Readers (\<lambda>_. 0))\<rparr>) w) else (EPERM, w)
     | Readers r \<Rightarrow>
         if r t = 0 then (EPERM, w)
         else (0, put (k\<lparr>k_rw := (k_rw k)(l := Readers (r(t := r t - 1)))\<rparr>) w))"

text \<open>\<open>init\<close> and \<open>destroy\<close> of any object; a mutex with an owner is in use.\<close>

definition object_of :: "kernel \<Rightarrow> addr \<Rightarrow> object_state" where
  "object_of k a = (if k_owner k a = None then k_objects k a else In_use)"

definition ref_init :: "('w \<Rightarrow> kernel) \<Rightarrow> (kernel \<Rightarrow> 'w \<Rightarrow> 'w) \<Rightarrow> addr \<Rightarrow> 'w \<Rightarrow> int \<times> 'w" where
  "ref_init get put a w = (let k = get w in
     if object_of k a = Uninitialised then (0, put (k\<lparr>k_objects := (k_objects k)(a := Unused)\<rparr>) w)
     else (EBUSY, w))"

definition ref_destroy :: "('w \<Rightarrow> kernel) \<Rightarrow> (kernel \<Rightarrow> 'w \<Rightarrow> 'w) \<Rightarrow> addr \<Rightarrow> 'w \<Rightarrow> int \<times> 'w" where
  "ref_destroy get put a w = (let k = get w in
     case object_of k a of
       Uninitialised \<Rightarrow> (EINVAL, w)
     | Unused \<Rightarrow> (0, put (k\<lparr>k_objects := (k_objects k)(a := Uninitialised)\<rparr>) w)
     | In_use \<Rightarrow> (EBUSY, w))"

definition ref_strerror :: "int \<Rightarrow> string" where
  "ref_strerror n = ''errno '' @ to_string (nat n)"

definition ref_api ::
  "('w \<Rightarrow> kernel) \<Rightarrow> (kernel \<Rightarrow> 'w \<Rightarrow> 'w) \<Rightarrow> (nat \<Rightarrow> ('w \<Rightarrow> 'w) option) \<Rightarrow> 'w cond_api" where
  "ref_api get put env = \<lparr>strerror = ref_strerror,
     pthread_mutex_init = ref_init get put, pthread_mutex_destroy = ref_destroy get put,
     pthread_mutex_lock = ref_lock get put, pthread_mutex_trylock = ref_trylock get put,
     pthread_mutex_unlock = ref_unlock get put,
     pthread_cond_init = ref_init get put, pthread_cond_destroy = ref_destroy get put,
     pthread_cond_wait = ref_wait get put env, pthread_cond_timedwait = ref_timedwait get put env,
     pthread_cond_signal = (\<lambda>c w. (0, w)), pthread_cond_broadcast = (\<lambda>c w. (0, w)),
     gettimeofday = (\<lambda>w. ((0, k_now (get w)), w))\<rparr>"

definition ref_rw_api :: "('w \<Rightarrow> kernel) \<Rightarrow> (kernel \<Rightarrow> 'w \<Rightarrow> 'w) \<Rightarrow> 'w rwlock_api" where
  "ref_rw_api get put = \<lparr>strerror = ref_strerror,
     pthread_rwlock_init = ref_init get put, pthread_rwlock_destroy = ref_destroy get put,
     pthread_rwlock_rdlock = ref_rdlock get put, pthread_rwlock_wrlock = ref_wrlock get put,
     pthread_rwlock_tryrdlock = ref_tryrdlock get put, pthread_rwlock_trywrlock = ref_trywrlock get put,
     pthread_rwlock_unlock = ref_rwunlock get put\<rparr>"

section \<open>It keeps the documented laws\<close>

text \<open>A world that contains a kernel.\<close>

locale kernel_view =
  fixes get :: "'w \<Rightarrow> kernel" and put :: "kernel \<Rightarrow> 'w \<Rightarrow> 'w"
  assumes get_put: "get (put k w) = k"

sublocale kernel_view \<subseteq> ref_mutex: posix_mutex "ref_api get put env" "\<lambda>w. k_owner (get w)" for env
  by unfold_locales
    (auto simp: ref_api_def ref_lock_def ref_trylock_def ref_unlock_def Let_def get_put
      split: option.splits if_splits)

lemma object_of_upd:
  "object_of (k\<lparr>k_objects := (k_objects k)(a := x)\<rparr>) =
     (if k_owner k a = None then (object_of k)(a := x) else object_of k)"
  by (auto simp: object_of_def fun_eq_iff)

lemma object_of_owned: "object_of k a \<noteq> In_use \<Longrightarrow> k_owner k a = None"
  by (auto simp: object_of_def split: if_splits)

sublocale kernel_view \<subseteq> ref_lifetimes: posix_lifetimes "ref_api get put env" "\<lambda>w. object_of (get w)" for env
  by unfold_locales
    (auto simp: ref_api_def ref_init_def ref_destroy_def Let_def get_put object_of_upd object_of_owned
      split: object_state.splits if_splits)

sublocale kernel_view \<subseteq> ref_rw_lifetimes: posix_rw_lifetimes "ref_api get put env" "\<lambda>w. object_of (get w)"
    "ref_rw_api get put" for env
  by unfold_locales
    (auto simp: ref_rw_api_def ref_init_def ref_destroy_def Let_def get_put object_of_upd object_of_owned
      split: object_state.splits if_splits)

sublocale kernel_view \<subseteq> ref_rwlock: posix_rwlock "ref_rw_api get put"
    "\<lambda>w l. writer_of (k_rw (get w) l)" "\<lambda>w l. readers_of (k_rw (get w) l)"
proof unfold_locales
  show "writer_of (k_rw (get w) l) \<noteq> None \<Longrightarrow> readers_of (k_rw (get w) l) = (\<lambda>_. 0)" for w l
    by (rule rw_exclusive)
qed (auto simp: ref_rw_api_def ref_rdlock_def ref_wrlock_def ref_tryrdlock_def ref_trywrlock_def
    ref_rwunlock_def Let_def get_put split: rw_state.splits if_splits)

sublocale kernel_view \<subseteq> ref_rw_holds: posix_rw_holds "ref_rw_api get put"
    "\<lambda>w l. writer_of (k_rw (get w) l)" "\<lambda>w l. readers_of (k_rw (get w) l)"
  by unfold_locales
    (auto simp: ref_rw_api_def ref_rdlock_def ref_wrlock_def ref_rwunlock_def Let_def get_put
      split: rw_state.splits if_splits)

text \<open>The world that is the kernel alone.\<close>

definition kernel_put :: "kernel \<Rightarrow> kernel \<Rightarrow> kernel" where
  "kernel_put k w = k"

interpretation plain: kernel_view "\<lambda>k. k" kernel_put
  by unfold_locales (simp add: kernel_put_def)

abbreviation plain_api :: "kernel cond_api" where
  "plain_api \<equiv> ref_api (\<lambda>k. k) kernel_put (\<lambda>_. None)"

abbreviation plain_rw_api :: "kernel rwlock_api" where
  "plain_rw_api \<equiv> ref_rw_api (\<lambda>k. k) kernel_put"

lemma plain_posix_mutex: "posix_mutex plain_api k_owner"
  by (rule plain.ref_mutex.posix_mutex_axioms)

lemma plain_posix_rwlock:
  "posix_rwlock plain_rw_api (\<lambda>w l. writer_of (k_rw w l)) (\<lambda>w l. readers_of (k_rw w l))"
  by (rule plain.ref_rwlock.posix_rwlock_axioms)

lemma plain_posix_rw_holds:
  "posix_rw_holds plain_rw_api (\<lambda>w l. writer_of (k_rw w l)) (\<lambda>w l. readers_of (k_rw w l))"
  by (rule plain.ref_rw_holds.posix_rw_holds_axioms)

section \<open>Threads\<close>

text \<open>
  Attributes are their stack size.  At most \<open>ro_limit\<close> threads exist at a time; one that is
  joined has ended.  \<open>ro_runs\<close> tells what a thread was created to run, \<open>ro_done\<close> what has been
  run to its end.
\<close>

record ref_os =
  ro_next :: pthread_t
  ro_limit :: nat
  ro_threads :: "pthread_t list"
  ro_live :: int
  ro_runs :: "pthread_t \<Rightarrow> addr option"
  ro_done :: "addr list"

definition EAGAIN :: int where "EAGAIN = 11"

definition ref_create :: "pthread_t \<Rightarrow> size_t \<Rightarrow> addr \<Rightarrow> ref_os \<Rightarrow> (int \<times> pthread_t) \<times> ref_os" where
  "ref_create t a runner w =
     (if ro_next w = 0 \<or> ro_limit w \<le> length (ro_threads w) \<or> ro_runs w (ro_next w) \<noteq> None
      then ((EAGAIN, 0), w)
      else ((0, ro_next w), w\<lparr>ro_next := ro_next w + 1, ro_threads := ro_next w # ro_threads w,
        ro_runs := (ro_runs w)(ro_next w \<mapsto> runner)\<rparr>))"

definition ref_join :: "pthread_t \<Rightarrow> pthread_t \<Rightarrow> ref_os \<Rightarrow> (int \<times> ref_os) option" where
  "ref_join t u w =
     (if u = t then Some (EDEADLK, w)
      else if u \<in> set (ro_threads w) then Some (0, w\<lparr>ro_threads := remove1 u (ro_threads w),
        ro_done := (case ro_runs w u of None \<Rightarrow> ro_done w | Some q \<Rightarrow> q # ro_done w)\<rparr>)
      else Some (EINVAL, w))"

definition ref_threads :: "(size_t, ref_os) thread_api" where
  "ref_threads = \<lparr>strerror = ref_strerror,
     pthread_attr_init = (\<lambda>w. ((0, 8388608), w\<lparr>ro_live := ro_live w + 1\<rparr>)),
     pthread_attr_destroy = (\<lambda>a w. ((0, a), w\<lparr>ro_live := ro_live w - 1\<rparr>)),
     pthread_attr_setdetachstate = (\<lambda>st a w. ((0, a), w)),
     pthread_attr_setstacksize = (\<lambda>sz a w. ((0, sz), w)),
     pthread_attr_getstacksize = (\<lambda>a w. ((0, a), w)),
     pthread_create = ref_create, pthread_join = ref_join,
     usleep = (\<lambda>n w. (0, w)), sleep = (\<lambda>n w. (0, w)), errno = (\<lambda>w. 0),
     pthread_stack_min = 16384\<rparr>"

definition ref_os0 :: ref_os where
  "ref_os0 = \<lparr>ro_next = 1, ro_limit = 8, ro_threads = [], ro_live = 0, ro_runs = Map.empty, ro_done = []\<rparr>"

interpretation ref_threads: posix_threads ref_threads ro_live
  by unfold_locales (auto simp: ref_threads_def ref_create_def ref_join_def EAGAIN_def split: if_splits)

lemma ref_posix_threads: "posix_threads ref_threads ro_live"
  by (rule ref_threads.posix_threads_axioms)

end
