(* ===== verification/Lock_Guard.thy ===== *)
theory Lock_Guard
  imports Posix_Reference
begin

text \<open>
  The scoped lock (include/pthread/lock_guard.hpp).  The template's \<open>MutexType\<close> is a record
  of the two methods the template calls; the contract they keep, and what a guarded scope
  then guarantees, is the locale \<open>lockable\<close>, interpreted by the mutex and by the two faces
  of the read-write lock.
\<close>

record ('w, 'm) mutex_type =
  mt_lock :: "'m \<Rightarrow> ('w, exn, unit) comp"
  mt_unlock :: "'m \<Rightarrow> ('w, exn, unit) comp"

record 'm lock_guard =
  lg_mutex :: 'm

text \<open>The constructor stores the pointer and locks; a throwing lock leaves no object behind.\<close>

definition lock_guard_ctor :: "('w, 'm) mutex_type \<Rightarrow> 'm \<Rightarrow> ('w, exn, 'm lock_guard) comp" where
  "lock_guard_ctor T mutex =
     (let g = \<lparr>lg_mutex = mutex\<rparr> in bind (mt_lock T (lg_mutex g)) (\<lambda>_. ret g))"

definition lock_guard_dtor :: "('w, 'm) mutex_type \<Rightarrow> 'm lock_guard \<Rightarrow> ('w, exn, unit) comp" where
  "lock_guard_dtor T g = mt_unlock T (lg_mutex g)"

definition internal_mutex :: "'m lock_guard \<Rightarrow> 'm" where
  "internal_mutex g = lg_mutex g"

text \<open>\<open>{ lock_guard<M> lck(mutex); body }\<close>\<close>

definition with_lock_guard ::
  "('w, 'm) mutex_type \<Rightarrow> 'm \<Rightarrow> ('m lock_guard \<Rightarrow> ('w, exn, 'a) comp) \<Rightarrow> ('w, exn, 'a) comp" where
  "with_lock_guard T mutex body =
     bind (lock_guard_ctor T mutex) (\<lambda>g. scoped (body g) (lock_guard_dtor T g))"

lemma with_lock_guard_run [comp_simps]:
  "mt_lock T m w = Some (Inr (), w1) \<Longrightarrow>
     with_lock_guard T m body w = scoped (body \<lparr>lg_mutex = m\<rparr>) (mt_unlock T m) w1"
  by (simp add: with_lock_guard_def lock_guard_ctor_def lock_guard_dtor_def bind_def)

lemma with_lock_guard_lock_fails [comp_simps]:
  "mt_lock T m w = Some (Inl f, w1) \<Longrightarrow> with_lock_guard T m body w = Some (Inl f, w1)"
  by (simp add: with_lock_guard_def lock_guard_ctor_def bind_def)

lemma with_lock_guard_blocks [comp_simps]:
  "mt_lock T m w = None \<Longrightarrow> with_lock_guard T m body w = None"
  by (simp add: with_lock_guard_def lock_guard_ctor_def bind_def)

lemma never_ub_with_lock_guard [no_ub]:
  assumes "never_ub (mt_lock T m) w" and "\<And>u. never_ub (mt_unlock T m) u"
    and "\<And>u. mt_lock T m w = Some (Inr (), u) \<Longrightarrow> never_ub (body \<lparr>lg_mutex = m\<rparr>) u"
  shows "never_ub (with_lock_guard T m body) w"
  using assms unfolding with_lock_guard_def lock_guard_ctor_def lock_guard_dtor_def Let_def
  by (auto intro!: never_ub_bind never_ub_scoped never_ub_ret simp: bind_assoc
      elim!: bind_Some_Inr_E)

lemma with_lock_guard_returns_iff:
  "with_lock_guard T m body w = Some (Inr a, w') \<longleftrightarrow>
     (\<exists>w1 w2. mt_lock T m w = Some (Inr (), w1) \<and> body \<lparr>lg_mutex = m\<rparr> w1 = Some (Inr a, w2)
        \<and> mt_unlock T m w2 = Some (Inr (), w'))"
  by (auto simp: with_lock_guard_def lock_guard_ctor_def lock_guard_dtor_def Let_def
      bind_returns_iff scoped_returns_iff)

lemma with_lock_guard_throws_iff:
  "with_lock_guard T m body w = Some (Inl (Thrown e), w') \<longleftrightarrow>
     mt_lock T m w = Some (Inl (Thrown e), w')
     \<or> (\<exists>w1 w2. mt_lock T m w = Some (Inr (), w1) \<and> body \<lparr>lg_mutex = m\<rparr> w1 = Some (Inl (Thrown e), w2)
        \<and> mt_unlock T m w2 = Some (Inr (), w'))"
proof -
  have "lock_guard_ctor T m w = Some (Inr g, w1) \<longleftrightarrow> g = \<lparr>lg_mutex = m\<rparr> \<and> mt_lock T m w = Some (Inr (), w1)"
    and "lock_guard_ctor T m w = Some (Inl f, w1) \<longleftrightarrow> mt_lock T m w = Some (Inl f, w1)" for g f w1
    by (auto simp: lock_guard_ctor_def bind_def split: option.splits sum.splits)
  then show ?thesis
    unfolding with_lock_guard_def bind_throws_iff
    by (auto simp: scoped_throws_iff lock_guard_dtor_def)
qed

text \<open>Undefined behaviour in a guarded scope is its body's.\<close>

lemma with_lock_guard_undefined_iff:
  assumes "\<And>u. never_ub (mt_lock T m) u" and "\<And>u. never_ub (mt_unlock T m) u"
  shows "with_lock_guard T m body w = Some (Inl Undefined, w') \<longleftrightarrow>
    (\<exists>w1. mt_lock T m w = Some (Inr (), w1) \<and> body \<lparr>lg_mutex = m\<rparr> w1 = Some (Inl Undefined, w'))"
  using assms(1) [of w]
  by (auto simp: with_lock_guard_def lock_guard_ctor_def lock_guard_dtor_def bind_throws_iff bind_returns_iff
      scoped_undefined_iff [OF assms(2)] never_ub_def)

section \<open>The contract of a lock\<close>

text \<open>
  Seen from one thread: \<open>free\<close> says that the thread does not hold the lock, \<open>held\<close> that it
  holds it once.
\<close>

locale lockable =
  fixes T :: "('w, 'm) mutex_type" and m :: 'm
    and free :: "'w \<Rightarrow> bool" and held :: "'w \<Rightarrow> bool"
  assumes lock_gives: "free w \<Longrightarrow> mt_lock T m w = Some (Inr (), w') \<Longrightarrow> held w'"
    and unlock_frees: "held w \<Longrightarrow> \<exists>w'. mt_unlock T m w = Some (Inr (), w') \<and> free w'"

context lockable
begin

text \<open>
  The body starts with the lock held, and however it leaves, by a value or by an exception,
  the lock is free again and the outcome is the body's.
\<close>

lemma guarded_scope:
  assumes "free w" and "mt_lock T m w = Some (Inr (), w1)"
    and "body \<lparr>lg_mutex = m\<rparr> w1 = Some (r, w2)" and "held w2"
    and "r \<noteq> Inl Terminated" and "r \<noteq> Inl Undefined"
  shows "held w1 \<and> (\<exists>w3. with_lock_guard T m body w = Some (r, w3) \<and> free w3)"
proof -
  from unlock_frees [OF assms(4)] obtain w3
    where u: "mt_unlock T m w2 = Some (Inr (), w3)" "free w3" by blast
  have "scoped (body \<lparr>lg_mutex = m\<rparr>) (mt_unlock T m) w1 = Some (r, w3)"
    using assms(3,5,6) u(1) by (rule scoped_dtor_ok)
  with u assms(1,2) show ?thesis by (auto simp: comp_simps intro: lock_gives)
qed

end

end
