(* ===== verification/Mutex.thy ===== *)
theory Mutex
  imports Lock_Guard
begin

text \<open>
  The class \<open>mutex\<close> (include/pthread/mutex.hpp, src/mutex.cpp): a \<open>pthread_mutex_t\<close> and
  methods that turn return codes into exceptions.  The object is the address of its
  \<open>pthread_mutex_t\<close>; \<open>t\<close> is the calling thread.
\<close>

type_synonym mutex = addr

definition mutex_ctor :: "('w, 'z) mutex_api_scheme \<Rightarrow> mutex \<Rightarrow> ('w, exn, unit) comp" where
  "mutex_ctor P m =
     bind (call (pthread_mutex_init P m)) (\<lambda>rc.
       if rc \<noteq> 0
       then throw (mutex_exception (strerror P)
              ''In constructor of mutex pthread_mutex_init(&mutex, NULL) failed. '' rc)
       else ret ())"

definition mutex_dtor :: "('w, 'z) mutex_api_scheme \<Rightarrow> mutex \<Rightarrow> ('w, exn, unit) comp" where
  "mutex_dtor P m = bind (call (pthread_mutex_destroy P m)) (\<lambda>_. ret ())"

definition mutex_lock :: "('w, 'z) mutex_api_scheme \<Rightarrow> pthread_t \<Rightarrow> mutex \<Rightarrow> ('w, exn, unit) comp" where
  "mutex_lock P t m =
     bind (block (pthread_mutex_lock P t m)) (\<lambda>rc.
       if rc \<noteq> 0 then throw (mutex_exception (strerror P) ''pthread_mutex_lock failed.'' rc)
       else ret ())"

definition mutex_try_lock :: "('w, 'z) mutex_api_scheme \<Rightarrow> pthread_t \<Rightarrow> mutex \<Rightarrow> ('w, exn, bool) comp" where
  "mutex_try_lock P t m =
     bind (call (pthread_mutex_trylock P t m)) (\<lambda>rc.
       if rc = 0 then ret True
       else if rc = EBUSY then ret False
       else throw (mutex_exception (strerror P) ''pthread_mutex_trylock failed, already locked.'' rc))"

definition mutex_unlock :: "('w, 'z) mutex_api_scheme \<Rightarrow> pthread_t \<Rightarrow> mutex \<Rightarrow> ('w, exn, unit) comp" where
  "mutex_unlock P t m =
     bind (call (pthread_mutex_unlock P t m)) (\<lambda>rc.
       if rc \<noteq> 0 then throw (mutex_exception (strerror P) ''pthread_mutex_unlock failed.'' rc)
       else ret ())"

text \<open>\<open>mutex\<close> as the parameter of \<open>lock_guard\<close>.\<close>

definition mutex_as_type :: "('w, 'z) mutex_api_scheme \<Rightarrow> pthread_t \<Rightarrow> ('w, mutex) mutex_type" where
  "mutex_as_type P t = \<lparr>mt_lock = mutex_lock P t, mt_unlock = mutex_unlock P t\<rparr>"

lemma mutex_as_type_simps [comp_simps, simp]:
  "mt_lock (mutex_as_type P t) = mutex_lock P t"
  "mt_unlock (mutex_as_type P t) = mutex_unlock P t"
  by (simp_all add: mutex_as_type_def)

lemma never_ub_mutex [no_ub]:
  "never_ub (mutex_lock P t m) w" "never_ub (mutex_unlock P t m) w"
  unfolding mutex_lock_def mutex_unlock_def by (intro no_ub)+

section \<open>Every branch\<close>

lemma mutex_lock_cases:
  "mutex_lock P t m w = (case pthread_mutex_lock P t m w of
       None \<Rightarrow> None
     | Some (rc, w') \<Rightarrow>
         if rc = 0 then Some (Inr (), w')
         else Some (Inl (Thrown (mutex_exception (strerror P) ''pthread_mutex_lock failed.'' rc)), w'))"
  by (simp add: mutex_lock_def bind_def block_def split: option.split)

lemma mutex_lock_ok_iff:
  "mutex_lock P t m w = Some (Inr (), w') \<longleftrightarrow> pthread_mutex_lock P t m w = Some (0, w')"
  by (auto simp: mutex_lock_cases split: option.splits if_splits)

lemma mutex_unlock_ok_iff:
  "mutex_unlock P t m w = Some (Inr (), w') \<longleftrightarrow> pthread_mutex_unlock P t m w = (0, w')"
  by (cases "pthread_mutex_unlock P t m w") (auto simp: mutex_unlock_def comp_simps)

text \<open>On a POSIX mutex the class keeps the contract of a lock.\<close>

sublocale posix_mutex \<subseteq> guarded: lockable "mutex_as_type P t" m
    "\<lambda>w. owner w m \<noteq> Some t" "\<lambda>w. owner w m = Some t" for t m
proof unfold_locales
  fix w w'
  assume "owner w m \<noteq> Some t" and "mt_lock (mutex_as_type P t) m w = Some (Inr (), w')"
  then show "owner w' m = Some t" using lock_acquires [of w m t w'] by (simp add: mutex_lock_ok_iff)
next
  fix w
  assume "owner w m = Some t"
  from unlock_releases [OF this] obtain w'
    where "pthread_mutex_unlock P t m w = (0, w')" "owner w' m = None" by blast
  then show "\<exists>w'. mt_unlock (mutex_as_type P t) m w = Some (Inr (), w') \<and> owner w' m \<noteq> Some t"
    by (intro exI [of _ w']) (simp add: mutex_unlock_ok_iff)
qed

context posix_mutex
begin

lemmas guarded_mutex = guarded.guarded_scope

text \<open>\<open>try_lock\<close> decides whether the mutex was free, and takes it exactly then.\<close>

lemma try_lock_decides:
  "\<exists>w'. mutex_try_lock P t m w = Some (Inr (owner w m = None), w')
     \<and> (if owner w m = None then owner w' m = Some t else w' = w)"
proof (cases "owner w m")
  case None
  from trylock_free [OF this, of t] obtain w'
    where "pthread_mutex_trylock P t m w = (0, w')" "owner w' m = Some t" by blast
  with None show ?thesis by (auto simp: mutex_try_lock_def comp_simps)
next
  case (Some u)
  then have "pthread_mutex_trylock P t m w = (EBUSY, w)" by (simp add: trylock_busy)
  with Some show ?thesis by (simp add: mutex_try_lock_def comp_simps)
qed

end

section \<open>Properties\<close>

text \<open>On a POSIX mutex \<open>try_lock\<close> always returns, with true exactly when nobody owned the
  mutex; it then made the caller the owner, and otherwise changed nothing.\<close>

theorem mutex_try_lock_decides:
  assumes "posix_mutex P owner"
  shows "\<exists>w'. mutex_try_lock P t m w = Some (Inr (owner w m = None), w')
    \<and> (if owner w m = None then owner w' m = Some t else w' = w)"
  using assms by (rule posix_mutex.try_lock_decides)

lemma mutex_try_lock_decides_witness:
  "\<exists>w'. mutex_try_lock plain_api 1 5 kernel0 = Some (Inr True, w') \<and> k_owner w' 5 = Some 1"
  using mutex_try_lock_decides [OF plain_posix_mutex, of 1 5 kernel0] by (simp add: kernel0_def)

text \<open>C33: a scope guarded by a \<open>lock_guard\<close> on a POSIX mutex runs its body as the owner, and
  however the body leaves, by a value or by an exception, the mutex is released and the outcome
  is the body's.\<close>

theorem mutex_guarded_scope:
  assumes "posix_mutex P owner" and "owner w m \<noteq> Some t"
    and "mutex_lock P t m w = Some (Inr (), w1)"
    and "body \<lparr>lg_mutex = m\<rparr> w1 = Some (r, w2)" and "owner w2 m = Some t"
    and "r \<noteq> Inl Terminated" and "r \<noteq> Inl Undefined"
  shows "owner w1 m = Some t
    \<and> (\<exists>w3. with_lock_guard (mutex_as_type P t) m body w = Some (r, w3) \<and> owner w3 m \<noteq> Some t)"
proof -
  have lock: "mt_lock (mutex_as_type P t) m w = Some (Inr (), w1)" using assms(3) by simp
  show ?thesis by (rule posix_mutex.guarded_mutex) (rule assms lock)+
qed

lemma mutex_guarded_scope_witness:
  "\<exists>w3. with_lock_guard (mutex_as_type plain_api 1) 5 (\<lambda>_. throw (queue_full ''full'')) kernel0
     = Some (Inl (Thrown (queue_full ''full'')), w3) \<and> k_owner w3 5 \<noteq> Some 1"
proof -
  have "mutex_lock plain_api 1 5 kernel0 = Some (Inr (), kernel0\<lparr>k_owner := (k_owner kernel0)(5 := Some 1)\<rparr>)"
    by (simp add: mutex_lock_ok_iff ref_api_def ref_lock_def kernel0_def kernel_put_def)
  then show ?thesis
    using mutex_guarded_scope [OF plain_posix_mutex, of kernel0 5 1 _
        "\<lambda>_. throw (queue_full ''full'')"]
    by (simp add: kernel0_def)
qed

end
