(* ===== verification/Condition_Variable.thy ===== *)
theory Condition_Variable
  imports Mutex
begin

text \<open>
  The class \<open>condition_variable\<close> (include/pthread/condition_variable.hpp,
  src/condition_variable.cpp).  An object is the address of its \<open>pthread_cond_t\<close>; its
  member \<open>timeout\<close> lives in the shared memory, because every thread that waits with a
  deadline on the same object writes and reads the same member.  The predicates passed to
  the waiting methods are computations: they read the memory, may change it and may throw.
\<close>

type_synonym condition_variable = addr

record cv_mem =
  cv_timeout :: "addr \<Rightarrow> timespec"

datatype cv_status = no_timeout | timedout

section \<open>Construction, notification\<close>

definition cv_ctor :: "('w, 'z) cond_api_scheme \<Rightarrow> condition_variable \<Rightarrow> ('w, exn, unit) comp" where
  "cv_ctor P c =
     bind (call (pthread_cond_init P c)) (\<lambda>rc.
       if rc \<noteq> 0
       then throw (condition_variable_exception (strerror P) ''pthread_cond_init failed.'' rc)
       else ret ())"

text \<open>The destructor is declared \<open>throw (condition_variable_exception)\<close>: it may throw.\<close>

definition cv_dtor :: "('w, 'z) cond_api_scheme \<Rightarrow> condition_variable \<Rightarrow> ('w, exn, unit) comp" where
  "cv_dtor P c =
     bind (call (pthread_cond_destroy P c)) (\<lambda>rc.
       if rc \<noteq> 0
       then throw (condition_variable_exception (strerror P)
              ''pthread condition variable destroy failed.'' rc)
       else ret ())"

definition cv_notify_one :: "('w, 'z) cond_api_scheme \<Rightarrow> condition_variable \<Rightarrow> ('w, exn, unit) comp" where
  "cv_notify_one P c =
     bind (call (pthread_cond_signal P c)) (\<lambda>rc.
       if rc \<noteq> 0
       then throw (condition_variable_exception (strerror P) ''notify_all failed.'' rc)
       else ret ())"

definition cv_notify_all :: "('w, 'z) cond_api_scheme \<Rightarrow> condition_variable \<Rightarrow> ('w, exn, unit) comp" where
  "cv_notify_all P c =
     bind (call (pthread_cond_broadcast P c)) (\<lambda>rc.
       if rc \<noteq> 0
       then throw (condition_variable_exception (strerror P) ''notify_all failed.'' rc)
       else ret ())"

section \<open>Deadlines\<close>

text \<open>
  \<open>milliseconds\<close>: the arithmetic at the widths of the code, with \<open>int\<close> of 32 and \<open>long\<close>
  of 64 bits.  \<open>seconds\<close> is an \<open>int\<close>, \<open>nanos\<close> a \<open>long\<close>; \<open>seconds += nanos / 1000000000\<close>
  adds at 64 bits and stores at 32.
\<close>

definition timeout_nanos :: "timeval \<Rightarrow> cint \<Rightarrow> clong" where
  "timeout_nanos now millis = now_usec now * 1000 + scast (smod_word millis 1000 * 1000000 :: cint)"

definition timeout_seconds :: "timeval \<Rightarrow> cint \<Rightarrow> cint" where
  "timeout_seconds now millis =
     scast (scast (sdiv_word millis 1000) + sdiv_word (timeout_nanos now millis) 1000000000)"

definition timeout_after :: "timeval \<Rightarrow> cint \<Rightarrow> timespec" where
  "timeout_after now millis =
     \<lparr>tv_sec = now_sec now + scast (timeout_seconds now millis),
      tv_nsec = smod_word (timeout_nanos now millis) 1000000000\<rparr>"

lemmas timeout_arithmetic = timeout_after_def timeout_seconds_def timeout_nanos_def

text \<open>
  Overflow of a signed type is undefined: the product and the sum that make \<open>nanos\<close> and the sum
  that makes \<open>tv_sec\<close> have to fit a \<open>long\<close>.  The other operations cannot overflow, whatever the
  clock says: a remainder by 1000 times a million fits an \<open>int\<close>, and the seconds of the delay plus a
  quotient by \<open>1000000000\<close> fit a \<open>long\<close>, from which the store to \<open>int\<close> is a conversion.
\<close>

definition timeout_fits :: "timeval \<Rightarrow> cint \<Rightarrow> bool" where
  "timeout_fits now millis \<longleftrightarrow>
     fits_long (sint (now_usec now) * 1000)
     \<and> fits_long (sint (now_usec now) * 1000 + sint (smod_word millis 1000 * 1000000 :: cint))
     \<and> fits_long (sint (now_sec now) + sint (timeout_seconds now millis))"

definition set_timeout :: "condition_variable \<Rightarrow> timespec \<Rightarrow> 'z cv_mem_scheme \<Rightarrow> 'z cv_mem_scheme" where
  "set_timeout c ts w = w\<lparr>cv_timeout := (cv_timeout w)(c := ts)\<rparr>"

definition cv_milliseconds ::
  "('z cv_mem_scheme, 'y) cond_api_scheme \<Rightarrow> condition_variable \<Rightarrow> cint
     \<Rightarrow> ('z cv_mem_scheme, exn, unit) comp" where
  "cv_milliseconds P c millis =
     bind (call (gettimeofday P)) (\<lambda>(rc, now).
       if rc = 0 then
         if timeout_fits now millis then modify (set_timeout c (timeout_after now millis))
         else undefined_behaviour
       else throw (condition_variable_exception (strerror P) ''failed to get current time.''
              condition_variable_exception_default_error))"

section \<open>Waiting\<close>

text \<open>The return code of \<open>pthread_cond_wait\<close> is ignored.\<close>

definition cv_wait ::
  "('w, 'z) cond_api_scheme \<Rightarrow> pthread_t \<Rightarrow> condition_variable \<Rightarrow> mutex \<Rightarrow> ('w, exn, unit) comp" where
  "cv_wait P t c m = bind (block (pthread_cond_wait P t c m)) (\<lambda>_. ret ())"

text \<open>The overload that takes the guard by value: its parameter is destroyed at the end.\<close>

definition cv_wait_guard ::
  "('w, 'z) cond_api_scheme \<Rightarrow> pthread_t \<Rightarrow> condition_variable \<Rightarrow> mutex lock_guard
     \<Rightarrow> ('w, exn, unit) comp" where
  "cv_wait_guard P t c lck =
     scoped (cv_wait P t c (lg_mutex lck)) (lock_guard_dtor (mutex_as_type P t) lck)"

text \<open>\<open>wait (mtx, lambda)\<close>: test, and while the test fails wait and test again.\<close>

definition cv_wait_pred ::
  "('w, 'z) cond_api_scheme \<Rightarrow> pthread_t \<Rightarrow> condition_variable \<Rightarrow> mutex
     \<Rightarrow> ('w, exn, bool) comp \<Rightarrow> ('w, exn, bool) comp" where
  "cv_wait_pred P t c m lambda =
     bind lambda (\<lambda>stop_waiting.
       while_comp (\<lambda>stop_waiting. \<not> stop_waiting)
         (\<lambda>_. seq (cv_wait P t c m) lambda)
         stop_waiting)"

definition cv_wait_guard_pred ::
  "('w, 'z) cond_api_scheme \<Rightarrow> pthread_t \<Rightarrow> condition_variable \<Rightarrow> mutex lock_guard
     \<Rightarrow> ('w, exn, bool) comp \<Rightarrow> ('w, exn, bool) comp" where
  "cv_wait_guard_pred P t c lck lambda = cv_wait_pred P t c (lg_mutex lck) lambda"

text \<open>The switch over the return code of \<open>pthread_cond_timedwait\<close>, shared by both timed waits.\<close>

definition timedwait_status :: "('w, 'z) cond_api_scheme \<Rightarrow> int \<Rightarrow> ('w, exn, cv_status) comp" where
  "timedwait_status P rc =
     (if rc = ETIMEDOUT then ret timedout
      else if rc = EINVAL then
        throw (condition_variable_exception (strerror P)
          ''The value specified by abstime is invalid.'' rc)
      else if rc = EPERM then
        throw (condition_variable_exception (strerror P)
          ''The mutex was not owned by the current thread at the time of the call.'' rc)
      else ret no_timeout)"

text \<open>One call of \<open>pthread_cond_timedwait\<close> with the deadline found in the member.\<close>

definition timedwait ::
  "('z cv_mem_scheme, 'y) cond_api_scheme \<Rightarrow> pthread_t \<Rightarrow> condition_variable \<Rightarrow> mutex
     \<Rightarrow> ('z cv_mem_scheme, exn, int) comp" where
  "timedwait P t c m w = block (pthread_cond_timedwait P t c m (cv_timeout w c)) w"

definition cv_wait_for ::
  "('z cv_mem_scheme, 'y) cond_api_scheme \<Rightarrow> pthread_t \<Rightarrow> condition_variable \<Rightarrow> mutex \<Rightarrow> cint
     \<Rightarrow> ('z cv_mem_scheme, exn, cv_status) comp" where
  "cv_wait_for P t c m millis =
     seq (if 0 \<le> sint millis then cv_milliseconds P c millis else ret ())
       (bind (timedwait P t c m) (timedwait_status P))"

definition cv_wait_for_guard ::
  "('z cv_mem_scheme, 'y) cond_api_scheme \<Rightarrow> pthread_t \<Rightarrow> condition_variable \<Rightarrow> mutex lock_guard \<Rightarrow> cint
     \<Rightarrow> ('z cv_mem_scheme, exn, cv_status) comp" where
  "cv_wait_for_guard P t c lck millis = cv_wait_for P t c (lg_mutex lck) millis"

text \<open>The loop over \<open>stop_waiting\<close> and \<open>status\<close>; the deadline is computed once, before it.\<close>

definition cv_wait_for_pred ::
  "('z cv_mem_scheme, 'y) cond_api_scheme \<Rightarrow> pthread_t \<Rightarrow> condition_variable \<Rightarrow> mutex \<Rightarrow> cint
     \<Rightarrow> ('z cv_mem_scheme, exn, bool) comp \<Rightarrow> ('z cv_mem_scheme, exn, bool) comp" where
  "cv_wait_for_pred P t c m millis lambda =
     seq (cv_milliseconds P c millis)
       (bind lambda (\<lambda>stop_waiting.
         bind (while_comp (\<lambda>(stop_waiting, status). \<not> stop_waiting \<and> status = no_timeout)
             (\<lambda>_. bind (timedwait P t c m) (\<lambda>rc.
                bind (timedwait_status P rc) (\<lambda>status.
                  bind lambda (\<lambda>stop_waiting. ret (stop_waiting, status)))))
             (stop_waiting, no_timeout))
           (\<lambda>(stop_waiting, status). ret stop_waiting)))"

definition cv_wait_for_guard_pred ::
  "('z cv_mem_scheme, 'y) cond_api_scheme \<Rightarrow> pthread_t \<Rightarrow> condition_variable \<Rightarrow> mutex lock_guard \<Rightarrow> cint
     \<Rightarrow> ('z cv_mem_scheme, exn, bool) comp \<Rightarrow> ('z cv_mem_scheme, exn, bool) comp" where
  "cv_wait_for_guard_pred P t c lck millis lambda =
     cv_wait_for_pred P t c (lg_mutex lck) millis lambda"

section \<open>The deadline is exact\<close>

text \<open>In nanoseconds, as a mathematical integer.\<close>

definition timespec_nanos :: "timespec \<Rightarrow> int" where
  "timespec_nanos ts = sint (tv_sec ts) * 1000000000 + sint (tv_nsec ts)"

definition timeval_nanos :: "timeval \<Rightarrow> int" where
  "timeval_nanos now = sint (now_sec now) * 1000000000 + sint (now_usec now) * 1000"

text \<open>What the clock returns: microseconds below a million, seconds far from the 64-bit limits.\<close>

definition clock_ok :: "timeval \<Rightarrow> bool" where
  "clock_ok now \<longleftrightarrow> 0 \<le> sint (now_usec now) \<and> sint (now_usec now) < 1000000
     \<and> 0 \<le> sint (now_sec now) \<and> sint (now_sec now) < 2 ^ 62"

text \<open>The intermediate values, none of which overflows.\<close>

lemma sint_millis_div:
  "sint (sdiv_word (millis :: cint) 1000) = sint millis sdiv 1000"
  using sint_range32 [of millis] sdiv_bounds [of 1000 "sint millis"]
    sdiv_smod [of "sint millis" 1000] smod_bounds [of 1000 "sint millis"]
  by (simp add: sdiv_word_def sint_of_int)

lemma sint_millis_rest:
  "sint (smod_word (millis :: cint) 1000 * 1000000) = sint millis smod 1000 * 1000000"
proof -
  have r: "- 1000 < sint millis smod 1000" "sint millis smod 1000 < 1000"
    using smod_bounds [of 1000 "sint millis"] by simp_all
  have "sint (smod_word millis 1000) = sint millis smod 1000"
    using r by (simp add: smod_word_def sint_of_int)
  with r show ?thesis by (subst sint_mult_exact) simp_all
qed

lemma sint_timeout_nanos:
  assumes "clock_ok now"
  shows "sint (timeout_nanos now millis) = sint (now_usec now) * 1000 + sint millis smod 1000 * 1000000"
proof -
  have r: "- 1000 < sint millis smod 1000" "sint millis smod 1000 < 1000"
    using smod_bounds [of 1000 "sint millis"] by simp_all
  from assms have u: "0 \<le> sint (now_usec now)" "sint (now_usec now) < 1000000"
    by (simp_all add: clock_ok_def)
  have 1: "sint (now_usec now * 1000) = sint (now_usec now) * 1000"
    using u by (subst sint_mult_exact) simp_all
  have 2: "sint (scast (smod_word millis 1000 * 1000000 :: cint) :: clong)
    = sint millis smod 1000 * 1000000"
    using r by (subst sint_scast_exact) (simp_all add: sint_millis_rest)
  show ?thesis unfolding timeout_nanos_def using r u by (subst sint_add_exact) (simp_all add: 1 2)
qed

lemma timeout_seconds_exact:
  fixes millis :: cint
  assumes "clock_ok now"
  defines "n \<equiv> sint (now_usec now) * 1000 + sint millis smod 1000 * 1000000"
  shows "sint (timeout_seconds now millis) = sint millis sdiv 1000 + n sdiv 1000000000"
    and "\<bar>sint (timeout_seconds now millis)\<bar> \<le> 2147486"
proof -
  let ?seconds = "scast (sdiv_word millis 1000) + sdiv_word (timeout_nanos now millis) 1000000000 :: clong"
  have n: "sint (timeout_nanos now millis) = n" using sint_timeout_nanos [OF assms(1)] by (simp add: n_def)
  have s: "- 2147484 \<le> sint millis sdiv 1000" "sint millis sdiv 1000 \<le> 2147484"
    using sint_range32 [of millis] sdiv_smod [of "sint millis" 1000]
      smod_bounds [of 1000 "sint millis"] by linarith+
  have nb: "- 1000000000 < n" "n < 2000000000"
    using assms(1) smod_bounds [of 1000 "sint millis"] by (simp_all add: n_def clock_ok_def)
  have q: "- 2 \<le> n sdiv 1000000000" "n sdiv 1000000000 \<le> 2"
    using nb sdiv_smod [of n 1000000000] smod_bounds [of 1000000000 n] by linarith+
  have q': "sint (sdiv_word (timeout_nanos now millis) 1000000000) = n sdiv 1000000000"
    unfolding sdiv_word_def n using q by (subst sint_of_int) simp_all
  have s': "sint (scast (sdiv_word millis 1000) :: clong) = sint millis sdiv 1000"
    using s by (subst sint_scast_exact) (simp_all add: sint_millis_div)
  have sum: "sint ?seconds = sint millis sdiv 1000 + n sdiv 1000000000"
    using s q by (subst sint_add_exact) (simp_all add: s' q')
  show exact: "sint (timeout_seconds now millis) = sint millis sdiv 1000 + n sdiv 1000000000"
    unfolding timeout_seconds_def using s q by (simp add: sint_scast_exact sum)
  show "\<bar>sint (timeout_seconds now millis)\<bar> \<le> 2147486" unfolding exact using s q by linarith
qed

lemma timeout_after_fields:
  fixes millis :: cint
  assumes "clock_ok now"
  defines "n \<equiv> sint (now_usec now) * 1000 + sint millis smod 1000 * 1000000"
  shows "sint (tv_sec (timeout_after now millis))
      = sint (now_sec now) + (sint millis sdiv 1000 + n sdiv 1000000000)"
    and "sint (tv_nsec (timeout_after now millis)) = n smod 1000000000"
proof -
  note seconds = timeout_seconds_exact [OF assms(1), of millis, folded n_def]
  have s: "sint (scast (timeout_seconds now millis) :: clong) = sint (timeout_seconds now millis)"
    using seconds(2) by (intro sint_scast_exact) simp_all
  moreover have "0 \<le> sint (now_sec now)" "sint (now_sec now) < 2 ^ 62"
    using assms(1) by (simp_all add: clock_ok_def)
  ultimately have "sint (now_sec now + scast (timeout_seconds now millis)) = sint (now_sec now) + sint (timeout_seconds now millis)"
    using seconds(2) by (subst sint_add_exact) simp_all
  then show "sint (tv_sec (timeout_after now millis))
      = sint (now_sec now) + (sint millis sdiv 1000 + n sdiv 1000000000)"
    by (simp add: timeout_after_def seconds(1))
  have m: "- 1000000000 < n smod 1000000000" "n smod 1000000000 < 1000000000"
    using smod_bounds [of 1000000000 n] by simp_all
  have "sint (timeout_nanos now millis) = n" using sint_timeout_nanos [OF assms(1)] by (simp add: n_def)
  with m show "sint (tv_nsec (timeout_after now millis)) = n smod 1000000000"
    unfolding timeout_after_def timespec.simps smod_word_def by (subst sint_of_int) simp_all
qed

text \<open>With a clock that answers as documented there is no overflow.\<close>

lemma clock_ok_fits:
  assumes "clock_ok now"
  shows "timeout_fits now millis"
proof -
  have r: "sint (smod_word millis 1000 * 1000000 :: cint) = sint millis smod 1000 * 1000000"
    by (rule sint_millis_rest)
  show ?thesis
    using assms smod_bounds [of 1000 "sint millis"] timeout_seconds_exact(2) [OF assms, of millis]
    unfolding timeout_fits_def fits_long_def clock_ok_def r by simp linarith
qed

text \<open>
  The computed deadline is exactly the current time plus the delay, for every \<open>int\<close> delay,
  negative ones included; the nanoseconds are in range, and negative only for a negative
  delay.
\<close>

lemma timeout_after_exact:
  assumes "clock_ok now"
  shows "timespec_nanos (timeout_after now millis) = timeval_nanos now + sint millis * 1000000"
proof -
  define n where "n = sint (now_usec now) * 1000 + sint millis smod 1000 * 1000000"
  have "sint millis sdiv 1000 * 1000 + sint millis smod 1000 = sint millis"
    and "n sdiv 1000000000 * 1000000000 + n smod 1000000000 = n"
    by (rule sdiv_smod)+
  then show ?thesis
    using timeout_after_fields [OF assms, of millis]
    by (simp add: timespec_nanos_def timeval_nanos_def n_def [symmetric]) (simp add: n_def)
qed

lemma timeout_after_nsec_range:
  assumes "clock_ok now"
  shows "- 1000000000 < sint (tv_nsec (timeout_after now millis))
    \<and> sint (tv_nsec (timeout_after now millis)) < 1000000000"
  using smod_bounds [of 1000000000] by (simp add: timeout_after_fields [OF assms])

lemma timeout_after_nsec_sign:
  assumes "clock_ok now"
  shows "0 \<le> sint (tv_nsec (timeout_after now millis)) \<longleftrightarrow>
    0 \<le> sint (now_usec now) * 1000 + sint millis smod 1000 * 1000000"
proof -
  define n where "n = sint (now_usec now) * 1000 + sint millis smod 1000 * 1000000"
  have nsec: "sint (tv_nsec (timeout_after now millis)) = n smod 1000000000"
    by (simp add: timeout_after_fields [OF assms] n_def)
  have "- 1000000000 < n"
    using assms smod_bounds [of 1000 "sint millis"] by (simp add: clock_ok_def n_def)
  then have "n < 0 \<Longrightarrow> n smod 1000000000 = n" by (simp add: signed_modulo_int_def)
  then show ?thesis
    using smod_sign [of 1000000000 n] unfolding nsec n_def [symmetric] by linarith
qed

section \<open>What the waiting loops compute\<close>

text \<open>
  \<open>waits n w\<close> is the world after \<open>n\<close> calls of \<open>pthread_cond_wait\<close>, whatever they return and
  whatever the other threads do meanwhile.
\<close>

primrec waits ::
  "('w, 'z) cond_api_scheme \<Rightarrow> pthread_t \<Rightarrow> condition_variable \<Rightarrow> mutex \<Rightarrow> nat \<Rightarrow> 'w \<Rightarrow> 'w option" where
  "waits P t c m 0 w = Some w"
| "waits P t c m (Suc n) w =
     (case pthread_cond_wait P t c m w of None \<Rightarrow> None | Some (rc, w') \<Rightarrow> waits P t c m n w')"

text \<open>The first of these worlds in which a predicate holds.\<close>

definition first_wait ::
  "('w, 'z) cond_api_scheme \<Rightarrow> pthread_t \<Rightarrow> condition_variable \<Rightarrow> mutex \<Rightarrow> ('w \<Rightarrow> bool)
     \<Rightarrow> nat \<Rightarrow> 'w \<Rightarrow> 'w \<Rightarrow> bool" where
  "first_wait P t c m p n w w' \<longleftrightarrow> waits P t c m n w = Some w' \<and> p w'
     \<and> (\<forall>k < n. \<forall>u. waits P t c m k w = Some u \<longrightarrow> \<not> p u)"

lemma first_wait_0 [simp]: "first_wait P t c m p 0 w w' \<longleftrightarrow> w' = w \<and> p w"
  by (auto simp: first_wait_def)

lemma first_wait_Suc:
  "first_wait P t c m p (Suc n) w w' \<longleftrightarrow>
     \<not> p w \<and> (\<exists>rc u. pthread_cond_wait P t c m w = Some (rc, u) \<and> first_wait P t c m p n u w')"
  by (auto simp: first_wait_def less_Suc_eq_0_disj split: option.splits)

lemma bind_cv_wait:
  "bind (cv_wait P t c m) k w =
     (case pthread_cond_wait P t c m w of None \<Rightarrow> None | Some (rc, u) \<Rightarrow> k () u)"
  by (simp add: cv_wait_def bind_def block_def split: option.split)

lemma cv_wait_step:
  "cv_wait_pred P t c m (gets p) w =
     (if p w then Some (Inr True, w)
      else case pthread_cond_wait P t c m w of
        None \<Rightarrow> None
      | Some (rc, u) \<Rightarrow> cv_wait_pred P t c m (gets p) u)"
proof -
  define L where "L = while_comp Not (\<lambda>_. seq (cv_wait P t c m) (gets p))"
  have enter: "cv_wait_pred P t c m (gets p) u = L (p u) u" for u
    by (simp add: cv_wait_pred_def L_def)
  have "L False w = bind (cv_wait P t c m) (\<lambda>_. bind (gets p) L) w"
    by (simp add: L_def while_comp_go bind_assoc)
  moreover have "L True w = Some (Inr True, w)"
    by (simp add: L_def while_comp_stop)
  ultimately show ?thesis by (simp add: enter bind_cv_wait split: option.split)
qed

lemma cv_wait_complete:
  "first_wait P t c m p n w w' \<Longrightarrow> cv_wait_pred P t c m (gets p) w = Some (Inr True, w')"
proof (induction n arbitrary: w)
  case 0
  then show ?case by (simp add: cv_wait_step)
next
  case (Suc n)
  then show ?case by (subst cv_wait_step) (auto simp: first_wait_Suc)
qed

lemma cv_wait_sound_fuel:
  "while_fuel n Not (\<lambda>_. seq (cv_wait P t c m) (gets p)) (p w) w = Some (r, w') \<Longrightarrow>
     r = Inr True \<and> (\<exists>n. first_wait P t c m p n w w')"
proof (induction n arbitrary: w)
  case (Suc n)
  show ?case
  proof (cases "p w")
    case True
    with Suc.prems show ?thesis by (auto intro: exI [of _ 0])
  next
    case False
    define F where "F = while_fuel n Not (\<lambda>_. seq (cv_wait P t c m) (gets p))"
    from Suc.prems False have "bind (cv_wait P t c m) (\<lambda>_. bind (gets p) F) w = Some (r, w')"
      by (simp add: F_def bind_assoc)
    then obtain rc u where u: "pthread_cond_wait P t c m w = Some (rc, u)"
      and "F (p u) u = Some (r, w')"
      by (auto simp: bind_cv_wait split: option.splits)
    from Suc.IH [OF this(2) [unfolded F_def]] u False show ?thesis
      by (auto simp: first_wait_Suc intro: exI [of _ "Suc _"])
  qed
qed simp

text \<open>The predicate wait returns exactly in the first world that satisfies the predicate.\<close>

lemma cv_wait_pred_iff:
  "cv_wait_pred P t c m (gets p) w = Some (r, w') \<longleftrightarrow>
     r = Inr True \<and> (\<exists>n. first_wait P t c m p n w w')"
proof
  assume "cv_wait_pred P t c m (gets p) w = Some (r, w')"
  then obtain n where
    "while_fuel n Not (\<lambda>_. seq (cv_wait P t c m) (gets p)) (p w) w = Some (r, w')"
    unfolding cv_wait_pred_def bind_gets while_comp_iff by blast
  then show "r = Inr True \<and> (\<exists>n. first_wait P t c m p n w w')"
    by (rule cv_wait_sound_fuel)
qed (auto intro: cv_wait_complete)

subsection \<open>With a deadline\<close>

text \<open>
  \<open>timed_waits n w\<close> is the world after \<open>n\<close> calls of \<open>pthread_cond_timedwait\<close> that all told the
  loop to go on, each with the deadline it found in the member; \<open>first_timed\<close> adds that the
  predicate failed before each of them; \<open>timed_end\<close> says how the loop ends in such a world.
\<close>

definition goes_on :: "int \<Rightarrow> bool" where
  "goes_on rc \<longleftrightarrow> rc \<noteq> ETIMEDOUT \<and> rc \<noteq> EINVAL \<and> rc \<noteq> EPERM"

primrec timed_waits ::
  "('z cv_mem_scheme, 'y) cond_api_scheme \<Rightarrow> pthread_t \<Rightarrow> condition_variable \<Rightarrow> mutex
     \<Rightarrow> nat \<Rightarrow> 'z cv_mem_scheme \<Rightarrow> 'z cv_mem_scheme option" where
  "timed_waits P t c m 0 w = Some w"
| "timed_waits P t c m (Suc n) w =
     (case pthread_cond_timedwait P t c m (cv_timeout w c) w of
        None \<Rightarrow> None
      | Some (rc, u) \<Rightarrow> if goes_on rc then timed_waits P t c m n u else None)"

definition first_timed ::
  "('z cv_mem_scheme, 'y) cond_api_scheme \<Rightarrow> pthread_t \<Rightarrow> condition_variable \<Rightarrow> mutex
     \<Rightarrow> ('z cv_mem_scheme \<Rightarrow> bool) \<Rightarrow> nat \<Rightarrow> 'z cv_mem_scheme \<Rightarrow> 'z cv_mem_scheme \<Rightarrow> bool" where
  "first_timed P t c m p n w u \<longleftrightarrow> timed_waits P t c m n w = Some u
     \<and> (\<forall>k < n. \<forall>v. timed_waits P t c m k w = Some v \<longrightarrow> \<not> p v)"

definition timed_end ::
  "('z cv_mem_scheme, 'y) cond_api_scheme \<Rightarrow> pthread_t \<Rightarrow> condition_variable \<Rightarrow> mutex
     \<Rightarrow> ('z cv_mem_scheme \<Rightarrow> bool) \<Rightarrow> 'z cv_mem_scheme \<Rightarrow> exn failure + bool \<Rightarrow> 'z cv_mem_scheme \<Rightarrow> bool" where
  "timed_end P t c m p u r w' \<longleftrightarrow>
     (if p u then r = Inr True \<and> w' = u
      else \<exists>rc. pthread_cond_timedwait P t c m (cv_timeout u c) u = Some (rc, w') \<and>
        (rc = ETIMEDOUT \<and> r = Inr (p w')
         \<or> rc = EINVAL \<and> r = Inl (Thrown (condition_variable_exception (strerror P)
               ''The value specified by abstime is invalid.'' EINVAL))
         \<or> rc = EPERM \<and> r = Inl (Thrown (condition_variable_exception (strerror P)
               ''The mutex was not owned by the current thread at the time of the call.'' EPERM))))"

lemma first_timed_0 [simp]: "first_timed P t c m p 0 w u \<longleftrightarrow> u = w"
  by (auto simp: first_timed_def)

lemma first_timed_Suc:
  "first_timed P t c m p (Suc n) w u \<longleftrightarrow>
     \<not> p w \<and> (\<exists>rc v. pthread_cond_timedwait P t c m (cv_timeout w c) w = Some (rc, v)
       \<and> goes_on rc \<and> first_timed P t c m p n v u)"
  by (auto simp: first_timed_def less_Suc_eq_0_disj split: option.splits if_splits)

lemma bind_timedwait:
  "bind (timedwait P t c m) k w =
     (case pthread_cond_timedwait P t c m (cv_timeout w c) w of
        None \<Rightarrow> None | Some (rc, u) \<Rightarrow> k rc u)"
  by (simp add: timedwait_def bind_def block_def split: option.split)

text \<open>One round of the loop, for any continuation \<open>L\<close>.\<close>

abbreviation timed_round ::
  "('z cv_mem_scheme, 'y) cond_api_scheme \<Rightarrow> pthread_t \<Rightarrow> condition_variable \<Rightarrow> mutex
     \<Rightarrow> ('z cv_mem_scheme \<Rightarrow> bool) \<Rightarrow> ('z cv_mem_scheme, exn, bool \<times> cv_status) comp" where
  "timed_round P t c m p \<equiv>
     bind (timedwait P t c m) (\<lambda>rc.
       bind (timedwait_status P rc) (\<lambda>status.
         bind (gets p) (\<lambda>stop_waiting. ret (stop_waiting, status))))"

abbreviation timed_guard :: "bool \<times> cv_status \<Rightarrow> bool" where
  "timed_guard \<equiv> \<lambda>(stop_waiting, status). \<not> stop_waiting \<and> status = no_timeout"

lemma timed_round_step:
  "bind (timed_round P t c m p) L w =
     (case pthread_cond_timedwait P t c m (cv_timeout w c) w of
        None \<Rightarrow> None
      | Some (rc, u) \<Rightarrow>
          if rc = ETIMEDOUT then L (p u, timedout) u
          else if rc = EINVAL then Some (Inl (Thrown (condition_variable_exception (strerror P)
              ''The value specified by abstime is invalid.'' EINVAL)), u)
          else if rc = EPERM then Some (Inl (Thrown (condition_variable_exception (strerror P)
              ''The mutex was not owned by the current thread at the time of the call.'' EPERM)), u)
          else L (p u, no_timeout) u)"
  by (simp add: bind_assoc bind_timedwait timedwait_status_def split: option.split)

definition timed_loop ::
  "('z cv_mem_scheme, 'y) cond_api_scheme \<Rightarrow> pthread_t \<Rightarrow> condition_variable \<Rightarrow> mutex
     \<Rightarrow> ('z cv_mem_scheme \<Rightarrow> bool) \<Rightarrow> bool \<times> cv_status
     \<Rightarrow> ('z cv_mem_scheme, exn, bool \<times> cv_status) comp" where
  "timed_loop P t c m p = while_comp timed_guard (\<lambda>_. timed_round P t c m p)"

lemma timed_loop_stop:
  "stop \<or> st = timedout \<Longrightarrow> timed_loop P t c m p (stop, st) w = Some (Inr (stop, st), w)"
  by (auto simp: timed_loop_def while_comp_stop)

lemma timed_loop_go:
  "timed_loop P t c m p (False, no_timeout) w = bind (timed_round P t c m p) (timed_loop P t c m p) w"
  by (simp add: timed_loop_def while_comp_go)

lemma timed_loop_complete:
  assumes "first_timed P t c m p n w u" and "timed_end P t c m p u r w'"
  shows "bind (timed_loop P t c m p (p w, no_timeout)) (\<lambda>(stop_waiting, status). ret stop_waiting) w
    = Some (r, w')"
  using assms(1)
proof (induction n arbitrary: w)
  case 0
  then have u: "u = w" by simp
  show ?case
  proof (cases "p w")
    case True
    with assms(2) u show ?thesis by (simp add: timed_end_def bind_Inr [OF timed_loop_stop])
  next
    case False
    with assms(2) u obtain rc where rc: "pthread_cond_timedwait P t c m (cv_timeout w c) w = Some (rc, w')"
      and r: "rc = ETIMEDOUT \<and> r = Inr (p w')
         \<or> rc = EINVAL \<and> r = Inl (Thrown (condition_variable_exception (strerror P)
               ''The value specified by abstime is invalid.'' EINVAL))
         \<or> rc = EPERM \<and> r = Inl (Thrown (condition_variable_exception (strerror P)
               ''The mutex was not owned by the current thread at the time of the call.'' EPERM))"
      by (auto simp: timed_end_def)
    from r False rc show ?thesis
      by (elim disjE)
        (simp_all add: bind_Inr bind_Inl timed_loop_go timed_round_step timed_loop_stop)
  qed
next
  case (Suc n)
  then obtain rc v where v: "\<not> p w" "pthread_cond_timedwait P t c m (cv_timeout w c) w = Some (rc, v)"
    "goes_on rc" "first_timed P t c m p n v u"
    by (auto simp: first_timed_Suc)
  then have "timed_loop P t c m p (p w, no_timeout) w = timed_loop P t c m p (p v, no_timeout) v"
    by (simp add: timed_loop_go timed_round_step goes_on_def)
  with Suc.IH [OF v(4)] show ?case by (simp add: bind_def)
qed

text \<open>The result of the loop, read off its final state.\<close>

definition stop_of :: "exn failure + bool \<times> cv_status \<Rightarrow> exn failure + bool" where
  "stop_of x = (case x of Inl f \<Rightarrow> Inl f | Inr (stop_waiting, status) \<Rightarrow> Inr stop_waiting)"

lemma timed_fuel_stopped:
  "while_fuel n timed_guard body (stop, timedout) w = Some (x, w') \<Longrightarrow> x = Inr (stop, timedout) \<and> w' = w"
  by (cases n) (auto split: if_splits)

lemma timed_loop_sound:
  "while_fuel n timed_guard (\<lambda>_. timed_round P t c m p) (p w, no_timeout) w = Some (x, w') \<Longrightarrow>
     \<exists>k u. first_timed P t c m p k w u \<and> timed_end P t c m p u (stop_of x) w'"
proof (induction n arbitrary: w)
  case (Suc n)
  define F where "F = while_fuel n timed_guard (\<lambda>_. timed_round P t c m p)"
  show ?case
  proof (cases "p w")
    case True
    with Suc.prems show ?thesis
      by (intro exI [of _ 0] exI [of _ w]) (auto simp: timed_end_def stop_of_def)
  next
    case False
    with Suc.prems have "bind (timed_round P t c m p) F w = Some (x, w')"
      unfolding F_def by (simp only: while_fuel.simps split_conv simp_thms if_True)
    then obtain rc u where wait: "pthread_cond_timedwait P t c m (cv_timeout w c) w = Some (rc, u)"
      and rest: "(if rc = ETIMEDOUT then F (p u, timedout) u
          else if rc = EINVAL then Some (Inl (Thrown (condition_variable_exception (strerror P)
              ''The value specified by abstime is invalid.'' EINVAL)), u)
          else if rc = EPERM then Some (Inl (Thrown (condition_variable_exception (strerror P)
              ''The mutex was not owned by the current thread at the time of the call.'' EPERM)), u)
          else F (p u, no_timeout) u) = Some (x, w')"
      by (auto simp only: timed_round_step split: option.splits)
    show ?thesis
    proof (cases "goes_on rc")
      case True
      with rest have "F (p u, no_timeout) u = Some (x, w')" by (simp add: goes_on_def)
      from Suc.IH [OF this [unfolded F_def]] obtain k v
        where "first_timed P t c m p k u v" "timed_end P t c m p v (stop_of x) w'" by blast
      with wait True False show ?thesis
        by (intro exI [of _ "Suc k"] exI [of _ v]) (auto simp: first_timed_Suc)
    next
      case no: False
      have "F (p u, timedout) u = Some (x, w') \<Longrightarrow> x = Inr (p u, timedout) \<and> w' = u"
        unfolding F_def by (rule timed_fuel_stopped)
      then have "timed_end P t c m p w (stop_of x) w'"
        using rest no wait False
        by (auto simp: goes_on_def timed_end_def stop_of_def split: if_splits)
      then show ?thesis by (intro exI [of _ 0] exI [of _ w]) simp
    qed
  qed
qed simp

text \<open>
  The timed predicate wait, exactly: it fixes a deadline, and then returns in the first
  world that satisfies the predicate, or after the first time-out with the predicate's value
  at that moment, or throws when the call refuses its arguments.
\<close>

lemma cv_wait_for_pred_iff:
  assumes clock: "gettimeofday P w = ((0, now), w0)" and fits: "timeout_fits now millis"
  shows "cv_wait_for_pred P t c m millis (gets p) w = Some (r, w') \<longleftrightarrow>
    (\<exists>n u. first_timed P t c m p n (set_timeout c (timeout_after now millis) w0) u
       \<and> timed_end P t c m p u r w')"
proof -
  define w1 where "w1 = set_timeout c (timeout_after now millis) w0"
  have run: "cv_wait_for_pred P t c m millis (gets p) w =
      bind (timed_loop P t c m p (p w1, no_timeout)) (\<lambda>(stop_waiting, status). ret stop_waiting) w1"
    using clock fits by (simp add: cv_wait_for_pred_def cv_milliseconds_def bind_assoc bind_call
        timed_loop_def w1_def)
  have "(\<exists>n u. first_timed P t c m p n w1 u \<and> timed_end P t c m p u r w')"
    if "bind (timed_loop P t c m p (p w1, no_timeout)) (\<lambda>(stop_waiting, status). ret stop_waiting) w1
      = Some (r, w')"
    using that
  proof (cases rule: bind_Some_E)
    case (failed f)
    from failed(1) obtain n where
      "while_fuel n timed_guard (\<lambda>_. timed_round P t c m p) (p w1, no_timeout) w1 = Some (Inl f, w')"
      unfolding timed_loop_def while_comp_iff by blast
    from timed_loop_sound [OF this] failed(2) show ?thesis by (simp add: stop_of_def)
  next
    case (went_on a v)
    from went_on(1) obtain n where
      "while_fuel n timed_guard (\<lambda>_. timed_round P t c m p) (p w1, no_timeout) w1 = Some (Inr a, v)"
      unfolding timed_loop_def while_comp_iff by blast
    from timed_loop_sound [OF this] went_on(2) show ?thesis
      by (cases a) (simp add: stop_of_def)
  qed
  then show ?thesis
    unfolding run w1_def [symmetric] using timed_loop_complete by blast
qed

subsection \<open>Without a predicate\<close>

text \<open>What the switch makes of the answer of \<open>pthread_cond_timedwait\<close>.\<close>

definition status_of :: "('w, 'z) cond_api_scheme \<Rightarrow> int \<Rightarrow> exn failure + cv_status" where
  "status_of P rc = (if rc = ETIMEDOUT then Inr timedout
     else if rc = EINVAL then Inl (Thrown (condition_variable_exception (strerror P)
         ''The value specified by abstime is invalid.'' EINVAL))
     else if rc = EPERM then Inl (Thrown (condition_variable_exception (strerror P)
         ''The mutex was not owned by the current thread at the time of the call.'' EPERM))
     else Inr no_timeout)"

text \<open>A single wait: up to a new deadline, or, with a negative delay, up to the deadline of the last
  wait on this object, whoever waited.\<close>

theorem wait_for_outcomes:
  assumes "gettimeofday P w = ((0, now), w0)" and "timeout_fits now millis"
  shows "cv_wait_for P t c m millis w = Some (r, w') \<longleftrightarrow>
    (\<exists>rc. (if 0 \<le> sint millis
          then pthread_cond_timedwait P t c m (timeout_after now millis) (set_timeout c (timeout_after now millis) w0)
          else pthread_cond_timedwait P t c m (cv_timeout w c) w) = Some (rc, w')
      \<and> r = status_of P rc)"
proof -
  define start where "start = (if 0 \<le> sint millis then set_timeout c (timeout_after now millis) w0 else w)"
  have run: "cv_wait_for P t c m millis w = bind (timedwait P t c m) (timedwait_status P) start"
    using assms by (simp add: cv_wait_for_def cv_milliseconds_def bind_call bind_assoc start_def)
  show ?thesis
    unfolding run bind_timedwait
    by (auto simp: timedwait_status_def status_of_def start_def set_timeout_def split: option.splits)
qed

section \<open>What a caller may rely on\<close>

text \<open>Whatever the operating system does: the value returned is the predicate's, at the end.\<close>

lemma cv_wait_pred_post:
  "cv_wait_pred P t c m (gets p) w = Some (Inr b, w') \<Longrightarrow> b \<and> p w'"
  by (auto simp: cv_wait_pred_iff first_wait_def)

lemma cv_milliseconds_fails:
  "gettimeofday P w = ((rc, now), w0) \<Longrightarrow> rc \<noteq> 0 \<Longrightarrow>
     cv_wait_for_pred P t c m millis lambda w =
       Some (Inl (Thrown (condition_variable_exception (strerror P) ''failed to get current time.'' 0)), w0)"
  by (simp add: cv_wait_for_pred_def cv_milliseconds_def bind_assoc bind_call exception_defaults)

lemma cv_milliseconds_overflows:
  "gettimeofday P w = ((0, now), w0) \<Longrightarrow> \<not> timeout_fits now millis \<Longrightarrow>
     cv_wait_for_pred P t c m millis lambda w = Some (Inl Undefined, w0)"
  by (simp add: cv_wait_for_pred_def cv_milliseconds_def bind_assoc bind_call)

text \<open>The whole call: the clock cannot be read, the deadline cannot be computed, or the loop ends.\<close>

lemma cv_wait_for_pred_cases:
  assumes "gettimeofday P w = ((rc, now), w0)"
  shows "cv_wait_for_pred P t c m millis (gets p) w = Some (r, w') \<longleftrightarrow>
    (if rc \<noteq> 0 then r = Inl (Thrown (condition_variable_exception (strerror P)
        ''failed to get current time.'' 0)) \<and> w' = w0
     else if \<not> timeout_fits now millis then r = Inl Undefined \<and> w' = w0
     else \<exists>n u. first_timed P t c m p n (set_timeout c (timeout_after now millis) w0) u
       \<and> timed_end P t c m p u r w')"
proof (cases "rc = 0")
  case True
  with assms cv_wait_for_pred_iff [of P w now w0 millis t c m p r w']
    cv_milliseconds_overflows [of P w now w0 millis t c m "gets p"] show ?thesis by auto
next
  case False
  with cv_milliseconds_fails [OF assms, of t c m millis "gets p"] show ?thesis by auto
qed

lemma cv_wait_for_pred_post:
  assumes "cv_wait_for_pred P t c m millis (gets p) w = Some (Inr b, w')"
  shows "b = p w'"
proof -
  obtain rc now w0 where "gettimeofday P w = ((rc, now), w0)" by (metis surj_pair)
  from assms [unfolded cv_wait_for_pred_cases [OF this]] show ?thesis
    by (auto simp: timed_end_def split: if_splits)
qed

text \<open>The only undefined behaviour of a wait is the overflow of its deadline.\<close>

lemma cv_wait_for_pred_undefined_iff:
  "cv_wait_for_pred P t c m millis (gets p) w = Some (Inl Undefined, w') \<longleftrightarrow>
     (\<exists>now. gettimeofday P w = ((0, now), w') \<and> \<not> timeout_fits now millis)"
proof -
  obtain rc now w0 where "gettimeofday P w = ((rc, now), w0)" by (metis surj_pair)
  then show ?thesis
    by (auto simp: cv_wait_for_pred_cases timed_end_def split: if_splits)
qed

lemma never_ub_cv [no_ub]:
  "never_ub (cv_notify_one P c) w" "never_ub (cv_notify_all P c) w"
  "never_ub (cv_wait_pred P t c m (gets p)) w"
proof -
  show "never_ub (cv_notify_one P c) w" "never_ub (cv_notify_all P c) w"
    unfolding cv_notify_one_def cv_notify_all_def by (intro no_ub)+
  show "never_ub (cv_wait_pred P t c m (gets p)) w"
    by (simp add: never_ub_def cv_wait_pred_iff)
qed

section \<open>Properties\<close>

text \<open>The world of the concrete instances: the deadlines and the reference kernel.\<close>

abbreviation cv_world_put :: "kernel \<Rightarrow> kernel cv_mem_scheme \<Rightarrow> kernel cv_mem_scheme" where
  "cv_world_put k \<equiv> cv_mem.more_update (\<lambda>_. k)"

interpretation cv_world: kernel_view cv_mem.more cv_world_put
  by unfold_locales simp

definition cv_api :: "(nat \<Rightarrow> (kernel cv_mem_scheme \<Rightarrow> kernel cv_mem_scheme) option) \<Rightarrow> kernel cv_mem_scheme cond_api" where
  "cv_api env = ref_api cv_mem.more cv_world_put env"

text \<open>Thread 1 owns mutex 5.\<close>

definition cv_world0 :: "kernel cv_mem_scheme" where
  "cv_world0 = \<lparr>cv_timeout = (\<lambda>_. \<lparr>tv_sec = 0, tv_nsec = 0\<rparr>),
     \<dots> = kernel0\<lparr>k_owner := (k_owner kernel0)(5 := Some 1)\<rparr>\<rparr>"

lemma cv_world0_clock: "clock_ok (k_now (cv_mem.more cv_world0))"
  by (simp add: clock_ok_def cv_world0_def kernel0_def)

lemma cv_api_clock: "gettimeofday (cv_api env) w = ((0, k_now (cv_mem.more w)), w)"
  by (simp add: cv_api_def ref_api_def)

text \<open>C15: \<open>milliseconds\<close> stores a deadline that is exactly the current time plus the delay, to the
  nanosecond and without any overflow, for every \<open>int\<close> delay; the nanoseconds are in the range
  POSIX asks for whenever the delay is not negative.\<close>

theorem milliseconds_deadline:
  assumes "gettimeofday P w = ((0, now), w0)" and "clock_ok now"
  shows "\<exists>ts. cv_milliseconds P c millis w = Some (Inr (), w0\<lparr>cv_timeout := (cv_timeout w0)(c := ts)\<rparr>)
    \<and> timespec_nanos ts = timeval_nanos now + sint millis * 1000000
    \<and> sint (tv_nsec ts) < 1000000000 \<and> (0 \<le> sint millis \<longrightarrow> 0 \<le> sint (tv_nsec ts))"
proof (intro exI conjI impI)
  show "cv_milliseconds P c millis w =
      Some (Inr (), w0\<lparr>cv_timeout := (cv_timeout w0)(c := timeout_after now millis)\<rparr>)"
    using assms(1) clock_ok_fits [OF assms(2)]
    by (simp add: cv_milliseconds_def bind_call set_timeout_def modify_def)
  show "timespec_nanos (timeout_after now millis) = timeval_nanos now + sint millis * 1000000"
    using assms(2) by (rule timeout_after_exact)
  show "sint (tv_nsec (timeout_after now millis)) < 1000000000"
    using timeout_after_nsec_range [OF assms(2)] by simp
  show "0 \<le> sint (tv_nsec (timeout_after now millis))" if "0 \<le> sint millis"
    using assms(2) that smod_sign [of 1000 "sint millis"]
    by (simp add: timeout_after_nsec_sign clock_ok_def)
qed

lemma milliseconds_deadline_witness:
  "\<exists>w'. cv_milliseconds (cv_api (\<lambda>_. None)) 9 1 cv_world0 = Some (Inr (), w')
     \<and> timespec_nanos (cv_timeout w' 9) = 101000999000"
proof -
  from milliseconds_deadline [OF cv_api_clock cv_world0_clock, of "\<lambda>_. None" 9 1] show ?thesis
    by (auto simp: timeval_nanos_def cv_world0_def kernel0_def)
qed

text \<open>C14: the predicate wait without a deadline, with a mutex or with a guard, returns true and
  nothing else, in the first world among those before the first wait and after each wait in which
  the predicate holds; if there is none it does not return.\<close>

theorem wait_returns_at_first_success:
  "cv_wait_guard_pred P t c \<lparr>lg_mutex = m\<rparr> (gets p) = cv_wait_pred P t c m (gets p)
    \<and> (cv_wait_pred P t c m (gets p) w = Some (r, w') \<longleftrightarrow>
        r = Inr True \<and> (\<exists>n. waits P t c m n w = Some w' \<and> p w'
          \<and> (\<forall>k < n. \<forall>u. waits P t c m k w = Some u \<longrightarrow> \<not> p u)))"
  by (simp add: cv_wait_guard_pred_def cv_wait_pred_iff first_wait_def)

lemma wait_returns_at_first_success_witness:
  "cv_wait_pred (cv_api (\<lambda>_. Some (\<lambda>w. w))) 1 9 5 (gets (\<lambda>w. k_waits (cv_mem.more w) = 0)) cv_world0
     = Some (Inr True, cv_world0)"
proof -
  have "\<exists>n. waits (cv_api (\<lambda>_. Some (\<lambda>w. w))) 1 9 5 n cv_world0 = Some cv_world0
      \<and> k_waits (cv_mem.more cv_world0) = 0
      \<and> (\<forall>k < n. \<forall>u. waits (cv_api (\<lambda>_. Some (\<lambda>w. w))) 1 9 5 k cv_world0 = Some u
          \<longrightarrow> k_waits (cv_mem.more u) \<noteq> 0)"
    by (intro exI [of _ 0]) (simp add: cv_world0_def kernel0_def)
  then show ?thesis
    using wait_returns_at_first_success [of "cv_api (\<lambda>_. Some (\<lambda>w. w))" 1 9 5
        "\<lambda>w. k_waits (cv_mem.more w) = 0" cv_world0 "Inr True" cv_world0] by blast
qed

text \<open>C13: the predicate wait with a deadline reads the clock first.  It throws "failed to get current
  time." when the clock cannot be read, and has undefined behaviour when the arithmetic of the
  deadline overflows, which it does for no documented value of the clock.  Otherwise it fixes the
  deadline once and then waits.  It returns the predicate's value: true in the first world in
  which the predicate holds, or the value found after the first time-out; it throws when the call
  refuses its deadline or its mutex; it ends in no other way.\<close>

theorem timed_wait_outcomes:
  assumes "gettimeofday P w = ((rc, now), w0)"
  shows "(cv_wait_for_pred P t c m millis (gets p) w = Some (r, w') \<longleftrightarrow>
    (if rc \<noteq> 0 then r = Inl (Thrown (condition_variable_exception (strerror P)
        ''failed to get current time.'' 0)) \<and> w' = w0
     else if \<not> timeout_fits now millis then r = Inl Undefined \<and> w' = w0
     else \<exists>n u. first_timed P t c m p n (set_timeout c (timeout_after now millis) w0) u
       \<and> timed_end P t c m p u r w'))
    \<and> (clock_ok now \<longrightarrow> timeout_fits now millis)"
  using cv_wait_for_pred_cases [OF assms] clock_ok_fits by blast

text \<open>A run of the timed wait that other threads do not wake: it ends at its deadline.\<close>

lemma timed_wait_outcomes_witness:
  "\<exists>w'. cv_wait_for_pred (cv_api (\<lambda>_. None)) 1 9 5 1000 (gets (\<lambda>_. False)) cv_world0 = Some (Inr False, w')
     \<and> now_sec (k_now (cv_mem.more w')) = 101"
proof -
  define w1 where "w1 = set_timeout 9 (timeout_after (k_now (cv_mem.more cv_world0)) 1000) cv_world0"
  define w2 where "w2 = cv_world_put
    (cv_mem.more w1\<lparr>k_now := \<lparr>now_sec = 101, now_usec = sdiv_word 999999000 1000\<rparr>\<rparr>) w1"
  have dl: "cv_timeout w1 9 = \<lparr>tv_sec = 101, tv_nsec = 999999000\<rparr>"
    by (simp add: w1_def set_timeout_def cv_world0_def kernel0_def timeout_arithmetic) code_simp
  have start: "first_timed (cv_api (\<lambda>_. None)) 1 9 5 (\<lambda>_. False) 0 w1 w1" by simp
  have stop: "timed_end (cv_api (\<lambda>_. None)) 1 9 5 (\<lambda>_. False) w1 (Inr False) w2"
    by (simp add: timed_end_def dl cv_api_def ref_api_def ref_timedwait_def Let_def w2_def)
      (simp add: w1_def set_timeout_def cv_world0_def)
  have "\<exists>n u. first_timed (cv_api (\<lambda>_. None)) 1 9 5 (\<lambda>_. False) n w1 u
      \<and> timed_end (cv_api (\<lambda>_. None)) 1 9 5 (\<lambda>_. False) u (Inr False) w2"
    using start stop by blast
  then have "cv_wait_for_pred (cv_api (\<lambda>_. None)) 1 9 5 1000 (gets (\<lambda>_. False)) cv_world0 = Some (Inr False, w2)"
    using timed_wait_outcomes [OF cv_api_clock [of "\<lambda>_. None" cv_world0], where r = "Inr False" and w' = w2
        and t = 1 and c = 9 and m = 5 and millis = 1000 and p = "\<lambda>_. False"] cv_world0_clock
    unfolding w1_def by simp
  then show ?thesis by (simp add: w2_def)
qed

text \<open>A negative delay that does not make up for the microseconds of the clock gives a deadline
  with negative nanoseconds; where the system refuses it, the predicate wait throws instead of
  reporting a time-out.\<close>

theorem negative_delay_throws:
  assumes "gettimeofday P w = ((0, now), w0)" and "clock_ok now"
    and "sint (now_usec now) * 1000 + sint millis smod 1000 * 1000000 < 0"
    and "\<And>ts u. sint (tv_nsec ts) < 0 \<Longrightarrow> pthread_cond_timedwait P t c m ts u = Some (EINVAL, u)"
    and "\<not> p (set_timeout c (timeout_after now millis) w0)"
  shows "cv_wait_for_pred P t c m millis (gets p) w =
    Some (Inl (Thrown (condition_variable_exception (strerror P)
        ''The value specified by abstime is invalid.'' EINVAL)),
      set_timeout c (timeout_after now millis) w0)"
proof -
  let ?w1 = "set_timeout c (timeout_after now millis) w0"
  have "sint (tv_nsec (timeout_after now millis)) < 0"
    using timeout_after_nsec_sign [OF assms(2), of millis] assms(3) by linarith
  then have "pthread_cond_timedwait P t c m (cv_timeout ?w1 c) ?w1 = Some (EINVAL, ?w1)"
    using assms(4) by (simp add: set_timeout_def)
  then have "timed_end P t c m p ?w1 (Inl (Thrown (condition_variable_exception (strerror P)
        ''The value specified by abstime is invalid.'' EINVAL))) ?w1"
    using assms(5) by (simp add: timed_end_def)
  moreover have "first_timed P t c m p 0 ?w1 ?w1" by simp
  ultimately show ?thesis unfolding cv_wait_for_pred_iff [OF assms(1) clock_ok_fits [OF assms(2)]] by blast
qed

lemma negative_delay_throws_witness:
  "\<exists>w'. cv_wait_for_pred (cv_api (\<lambda>_. None)) 1 9 5 (- 1) (gets (\<lambda>_. False))
       (cv_world_put (kernel0\<lparr>k_now := \<lparr>now_sec = 100, now_usec = 0\<rparr>\<rparr>) cv_world0)
     = Some (Inl (Thrown (condition_variable_exception ref_strerror
        ''The value specified by abstime is invalid.'' EINVAL)), w')"
proof -
  let ?w = "cv_world_put (kernel0\<lparr>k_now := \<lparr>now_sec = 100, now_usec = 0\<rparr>\<rparr>) cv_world0"
  have refuses: "sint (tv_nsec ts) < 0 \<Longrightarrow>
      pthread_cond_timedwait (cv_api (\<lambda>_. None)) 1 9 5 ts u = Some (EINVAL, u)" for ts u
    by (simp add: cv_api_def ref_api_def ref_timedwait_def Let_def)
  have "sint (- 1 :: cint) smod 1000 = - 1" by (simp add: signed_modulo_int_def)
  then show ?thesis
    using negative_delay_throws [OF cv_api_clock [of "\<lambda>_. None" ?w] _ _ refuses,
        where millis = "- 1" and p = "\<lambda>_. False"]
    by (simp add: clock_ok_def cv_api_def ref_api_def)
qed

text \<open>\<open>wait\<close> ignores the code of \<open>pthread_cond_wait\<close>: where the call refuses a caller that does not
  own the mutex, a predicate wait whose predicate is false never returns.\<close>

theorem refused_wait_never_returns:
  assumes "pthread_cond_wait P t c m w = Some (EPERM, w)" and "\<not> p w"
  shows "cv_wait_pred P t c m (gets p) w = None"
proof (rule ccontr)
  assume "cv_wait_pred P t c m (gets p) w \<noteq> None"
  then obtain r w' where "cv_wait_pred P t c m (gets p) w = Some (r, w')" by auto
  then obtain n where n: "waits P t c m n w = Some w'" "p w'"
    by (auto simp: cv_wait_pred_iff first_wait_def)
  have "waits P t c m n w = Some w" using assms(1) by (induction n) simp_all
  with n assms(2) show False by simp
qed

lemma refused_wait_never_returns_witness:
  "cv_wait_pred (cv_api (\<lambda>_. None)) 2 9 5 (gets (\<lambda>_. False)) cv_world0 = None"
  by (rule refused_wait_never_returns)
    (simp_all add: cv_api_def ref_api_def ref_wait_def cv_world0_def)

text \<open>The overload of \<open>wait\<close> that takes a guard gives the mutex back: its parameter is a copy of
  the caller's guard, and the copy is destroyed when the wait is over.\<close>

theorem wait_guard_releases:
  assumes "posix_mutex P owner" and "pthread_cond_wait P t c m w = Some (rc, w1)"
    and "owner w1 m = Some t"
  shows "\<exists>w2. cv_wait_guard P t c \<lparr>lg_mutex = m\<rparr> w = Some (Inr (), w2) \<and> owner w2 m = None"
proof -
  from posix_mutex.unlock_releases [OF assms(1,3)] obtain w2
    where w2: "pthread_mutex_unlock P t m w1 = (0, w2)" "owner w2 m = None" by blast
  have "cv_wait P t c m w = Some (Inr (), w1)"
    using assms(2) by (simp add: cv_wait_def bind_block)
  then have "cv_wait_guard P t c \<lparr>lg_mutex = m\<rparr> w = Some (Inr (), w2)"
    unfolding cv_wait_guard_def lock_guard_dtor_def
    using w2(1) by (intro scoped_dtor_ok) (simp_all add: mutex_unlock_ok_iff)
  with w2(2) show ?thesis by blast
qed

lemma wait_guard_releases_witness:
  "\<exists>w2. cv_wait_guard (cv_api (\<lambda>_. Some (\<lambda>w. w))) 1 9 \<lparr>lg_mutex = 5\<rparr> cv_world0 = Some (Inr (), w2)
     \<and> k_owner (cv_mem.more w2) 5 = None"
proof -
  have wait: "pthread_cond_wait (cv_api (\<lambda>_. Some (\<lambda>w. w))) 1 9 5 cv_world0
      = Some (0, cv_world_put (cv_mem.more cv_world0\<lparr>k_waits := 1\<rparr>) cv_world0)"
    by (simp add: cv_api_def ref_api_def ref_wait_def cv_world0_def kernel0_def Let_def)
  have "posix_mutex (cv_api (\<lambda>_. Some (\<lambda>w. w))) (\<lambda>w. k_owner (cv_mem.more w))"
    unfolding cv_api_def by (rule cv_world.ref_mutex.posix_mutex_axioms)
  from wait_guard_releases [OF this wait] show ?thesis by (simp add: cv_world0_def)
qed

text \<open>C38: the deadline is a member that all waiters of an object share: thread 1 waits at most one
  second, another thread starts to wait for an hour on the same object and then wakes thread 1
  without making its predicate true; thread 1 gives up after that hour only.\<close>

theorem shared_deadline_is_overwritten:
  "\<exists>w'. cv_wait_for_pred
       (cv_api (\<lambda>n. if n = 0
          then Some (\<lambda>w. set_timeout 9 (timeout_after (k_now (cv_mem.more w)) 3600000) w) else None))
       1 9 5 1000 (gets (\<lambda>_. False)) cv_world0 = Some (Inr False, w')
     \<and> now_sec (k_now (cv_mem.more w')) = now_sec (k_now (cv_mem.more cv_world0)) + 3600"
proof -
  let ?hour = "\<lambda>w. set_timeout 9 (timeout_after (k_now (cv_mem.more w)) 3600000) w"
  define api where "api = cv_api (\<lambda>n. if n = 0 then Some ?hour else None)"
  define w1 where "w1 = set_timeout 9 (timeout_after (k_now (cv_mem.more cv_world0)) 1000) cv_world0"
  define w2 where "w2 = ?hour (cv_world_put (cv_mem.more w1\<lparr>k_waits := 1\<rparr>) w1)"
  define w3 where "w3 = cv_world_put
    (cv_mem.more w2\<lparr>k_now := \<lparr>now_sec = 3700, now_usec = sdiv_word 999999000 1000\<rparr>\<rparr>) w2"
  have clock: "k_now kernel0 = \<lparr>now_sec = 100, now_usec = 999999\<rparr>" by (simp add: kernel0_def)
  have dl1: "cv_timeout w1 9 = \<lparr>tv_sec = 101, tv_nsec = 999999000\<rparr>"
    by (simp add: w1_def set_timeout_def cv_world0_def clock timeout_arithmetic) code_simp
  have dl2: "cv_timeout w2 9 = \<lparr>tv_sec = 3700, tv_nsec = 999999000\<rparr>"
    by (simp add: w2_def w1_def set_timeout_def cv_world0_def clock timeout_arithmetic) code_simp
  have own: "k_owner (cv_mem.more w1) 5 = Some 1" "k_waits (cv_mem.more w1) = 0"
      "k_owner (cv_mem.more w2) 5 = Some 1" "k_waits (cv_mem.more w2) = 1"
    by (simp_all add: w1_def w2_def set_timeout_def cv_world0_def kernel0_def)
  have "pthread_cond_timedwait api 1 9 5 (cv_timeout w1 9) w1 = Some (0, w2)"
    unfolding dl1 using own
    by (simp add: api_def cv_api_def ref_api_def ref_timedwait_def Let_def) (simp add: w2_def)
  then have start: "first_timed api 1 9 5 (\<lambda>_. False) 1 w1 w2"
    by (simp add: first_timed_Suc goes_on_def errno_defs)
  have "pthread_cond_timedwait api 1 9 5 (cv_timeout w2 9) w2 = Some (ETIMEDOUT, w3)"
    unfolding dl2 using own
    by (simp add: api_def cv_api_def ref_api_def ref_timedwait_def Let_def) (simp add: w3_def)
  then have stop: "timed_end api 1 9 5 (\<lambda>_. False) w2 (Inr False) w3"
    by (simp add: timed_end_def)
  have "cv_wait_for_pred api 1 9 5 1000 (gets (\<lambda>_. False)) cv_world0 = Some (Inr False, w3)"
    unfolding api_def cv_wait_for_pred_iff [OF cv_api_clock clock_ok_fits [OF cv_world0_clock]] w1_def [symmetric]
    using start stop unfolding api_def by blast
  then show ?thesis unfolding api_def by (simp add: w3_def cv_world0_def kernel0_def)
qed

end
