(* ===== verification/Sync_Queue.thy ===== *)
theory Sync_Queue
  imports Condition_Variable
begin

text \<open>
  The bounded queue (include/pthread/sync_queue.hpp), as compiled since C++11: each method as
  one thread runs it.  What the other threads do while the method waits or is between two
  calls is part of the operating system's functions, which may change the queue's memory.
  The interleaved execution of several threads is modelled in the theory of the steps.

  A queue object is the addresses of its mutex and its two conditions; its list and its
  maximum size are in the memory, and so is the variable a caller passes by reference to
  \<open>get\<close>.
\<close>

record sync_queue =
  q_mutex :: mutex
  q_not_empty_cv :: condition_variable
  q_not_full_cv :: condition_variable

record 'a queue_mem = cv_mem +
  q_items :: "'a list"
  q_max_size :: cint
  q_vars :: "addr \<Rightarrow> 'a"

section \<open>Operations\<close>

text \<open>
  The predicates of the four waits.  \<open>_items.size() < _max_size\<close> compares a \<open>size_t\<close> with an
  \<open>int\<close>: the \<open>int\<close> is converted, a negative one to a huge number.
\<close>

definition int_to_size_t :: "cint \<Rightarrow> size_t" where
  "int_to_size_t n = scast n"

definition list_size :: "'a list \<Rightarrow> size_t" where
  "list_size xs = of_nat (length xs)"

definition has_room :: "'a list \<Rightarrow> cint \<Rightarrow> bool" where
  "has_room xs max_size \<longleftrightarrow> list_size xs < int_to_size_t max_size"

definition queue_not_empty :: "('a, 'z) queue_mem_scheme \<Rightarrow> bool" where
  "queue_not_empty w \<longleftrightarrow> q_items w \<noteq> []"

definition queue_not_full :: "('a, 'z) queue_mem_scheme \<Rightarrow> bool" where
  "queue_not_full w \<longleftrightarrow> has_room (q_items w) (q_max_size w)"

text \<open>
  \<open>item = _items.front(); _items.pop_front();\<close> on an empty list is undefined behaviour.
\<close>

definition take_front :: "addr \<Rightarrow> (('a, 'z) queue_mem_scheme, exn, unit) comp" where
  "take_front item =
     bind (gets q_items) (\<lambda>items. case items of
         [] \<Rightarrow> undefined_behaviour
       | x # rest \<Rightarrow>
           seq (modify (\<lambda>w. w\<lparr>q_vars := (q_vars w)(item := x)\<rparr>))
             (modify (\<lambda>w. w\<lparr>q_items := rest\<rparr>)))"

definition push_back :: "'a \<Rightarrow> (('a, 'z) queue_mem_scheme, exn, unit) comp" where
  "push_back x = modify (\<lambda>w. w\<lparr>q_items := q_items w @ [x]\<rparr>)"

definition sync_queue_get ::
  "(('a, 'z) queue_mem_scheme, 'y) cond_api_scheme \<Rightarrow> pthread_t \<Rightarrow> sync_queue \<Rightarrow> addr
     \<Rightarrow> (('a, 'z) queue_mem_scheme, exn, unit) comp" where
  "sync_queue_get P t q item =
     with_lock_guard (mutex_as_type P t) (q_mutex q) (\<lambda>lck.
       seq (cv_wait_guard_pred P t (q_not_empty_cv q) lck (gets queue_not_empty))
         (seq (take_front item)
           (cv_notify_one P (q_not_full_cv q))))"

definition sync_queue_get_timed ::
  "(('a, 'z) queue_mem_scheme, 'y) cond_api_scheme \<Rightarrow> pthread_t \<Rightarrow> sync_queue \<Rightarrow> addr \<Rightarrow> cint
     \<Rightarrow> (('a, 'z) queue_mem_scheme, exn, unit) comp" where
  "sync_queue_get_timed P t q item wait_time =
     with_lock_guard (mutex_as_type P t) (q_mutex q) (\<lambda>lck.
       bind (cv_wait_for_guard_pred P t (q_not_empty_cv q) lck wait_time (gets queue_not_empty))
         (\<lambda>not_empty.
           if not_empty then
             seq (take_front item) (cv_notify_one P (q_not_full_cv q))
           else
             seq (cv_notify_all P (q_not_full_cv q))
               (throw (queue_timeout ''synchronized_queue::get() timed out.''))))"

definition sync_queue_put ::
  "(('a, 'z) queue_mem_scheme, 'y) cond_api_scheme \<Rightarrow> pthread_t \<Rightarrow> sync_queue \<Rightarrow> 'a
     \<Rightarrow> (('a, 'z) queue_mem_scheme, exn, unit) comp" where
  "sync_queue_put P t q item =
     with_lock_guard (mutex_as_type P t) (q_mutex q) (\<lambda>lck.
       seq (cv_wait_pred P t (q_not_full_cv q) (q_mutex q) (gets queue_not_full))
         (seq (push_back item)
           (cv_notify_one P (q_not_empty_cv q))))"

definition sync_queue_put_timed ::
  "(('a, 'z) queue_mem_scheme, 'y) cond_api_scheme \<Rightarrow> pthread_t \<Rightarrow> sync_queue \<Rightarrow> 'a \<Rightarrow> cint
     \<Rightarrow> (('a, 'z) queue_mem_scheme, exn, unit) comp" where
  "sync_queue_put_timed P t q item wait_time =
     with_lock_guard (mutex_as_type P t) (q_mutex q) (\<lambda>lck.
       bind (cv_wait_for_guard_pred P t (q_not_full_cv q) lck wait_time (gets queue_not_full))
         (\<lambda>not_full.
           if not_full then
             seq (push_back item) (cv_notify_one P (q_not_empty_cv q))
           else
             seq (cv_notify_all P (q_not_empty_cv q))
               (throw (queue_full ''synchronized_queue::put() timeout, queue is full.''))))"

definition sync_queue_empty :: "(('a, 'z) queue_mem_scheme, exn, bool) comp" where
  "sync_queue_empty = gets (\<lambda>w. q_items w = [])"

definition sync_queue_size :: "(('a, 'z) queue_mem_scheme, exn, size_t) comp" where
  "sync_queue_size = gets (\<lambda>w. list_size (q_items w))"

definition sync_queue_max_size :: "(('a, 'z) queue_mem_scheme, exn, size_t) comp" where
  "sync_queue_max_size = gets (\<lambda>w. int_to_size_t (q_max_size w))"

text \<open>The parameter is a \<open>size_t\<close>: the test compares it with 0, the store narrows it to \<open>int\<close>.\<close>

definition sync_queue_set_max_size :: "size_t \<Rightarrow> (('a, 'z) queue_mem_scheme, exn, unit) comp" where
  "sync_queue_set_max_size max_size =
     (if 0 \<le> max_size then modify (\<lambda>w. w\<lparr>q_max_size := ucast max_size\<rparr>)
      else throw (queue_exception
        (''synchronized_queue's max size must be greater then 0, max_size '' @
          to_string (unat max_size) @ '' is not.'')))"

text \<open>
  The members are constructed in the order of their declaration; a throwing one undoes the
  earlier ones.  The destructor's body is empty: the members go in the reverse order, and a
  condition variable's destructor may throw, which does not spare the others theirs.
\<close>

definition sync_queue_default_max_size :: cint where
  "sync_queue_default_max_size = 10"

definition sync_queue_ctor ::
  "(('a, 'z) queue_mem_scheme, 'y) cond_api_scheme \<Rightarrow> sync_queue \<Rightarrow> cint
     \<Rightarrow> (('a, 'z) queue_mem_scheme, exn, unit) comp" where
  "sync_queue_ctor P q max_size =
     seq (mutex_ctor P (q_mutex q))
       (on_throw
         (seq (cv_ctor P (q_not_empty_cv q))
           (on_throw
             (seq (cv_ctor P (q_not_full_cv q))
               (modify (\<lambda>w. w\<lparr>q_items := [], q_max_size := max_size\<rparr>)))
             (cv_dtor P (q_not_empty_cv q))))
         (mutex_dtor P (q_mutex q)))"

definition sync_queue_dtor ::
  "(('a, 'z) queue_mem_scheme, 'y) cond_api_scheme \<Rightarrow> sync_queue
     \<Rightarrow> (('a, 'z) queue_mem_scheme, exn, unit) comp" where
  "sync_queue_dtor P q =
     seq (on_throw (cv_dtor P (q_not_full_cv q))
           (seq (cv_dtor P (q_not_empty_cv q)) (mutex_dtor P (q_mutex q))))
       (seq (on_throw (cv_dtor P (q_not_empty_cv q)) (mutex_dtor P (q_mutex q)))
         (mutex_dtor P (q_mutex q)))"

section \<open>The list is never popped when empty\<close>

lemma take_front_run:
  "q_items w = x # rest \<Longrightarrow>
     take_front item w = Some (Inr (), w\<lparr>q_vars := (q_vars w)(item := x), q_items := rest\<rparr>)"
  by (simp add: take_front_def modify_def)

lemma never_ub_take_front: "queue_not_empty w \<Longrightarrow> never_ub (take_front item) w"
  by (cases "q_items w") (simp_all add: queue_not_empty_def never_ub_def take_front_run)

lemma never_ub_push_back [no_ub]: "never_ub (push_back x) w"
  unfolding push_back_def by (rule no_ub)

lemma never_ub_get: "never_ub (sync_queue_get P t q item) w"
  unfolding sync_queue_get_def cv_wait_guard_pred_def
  by (intro no_ub never_ub_take_front) (auto dest: cv_wait_pred_post intro: no_ub)

lemma never_ub_put: "never_ub (sync_queue_put P t q x) w"
  unfolding sync_queue_put_def by (intro no_ub) (auto intro: no_ub)

text \<open>With a waiting time there is one source of undefined behaviour: the deadline.\<close>

lemma timed_call_undefined_iff:
  assumes "\<And>b u. (b \<longleftrightarrow> p u) \<Longrightarrow> never_ub (act b) u"
  shows "with_lock_guard (mutex_as_type P t) m
      (\<lambda>lck. bind (cv_wait_for_guard_pred P t c lck wait_time (gets p)) act) w = Some (Inl Undefined, w') \<longleftrightarrow>
    (\<exists>w1 now. pthread_mutex_lock P t m w = Some (0, w1)
      \<and> gettimeofday P w1 = ((0, now), w') \<and> \<not> timeout_fits now wait_time)"
proof -
  have "never_ub (mt_lock (mutex_as_type P t) m) u" "never_ub (mt_unlock (mutex_as_type P t) m) u" for u
    by (simp_all add: no_ub)
  moreover have "bind (cv_wait_for_pred P t c m wait_time (gets p)) act u = Some (Inl Undefined, v)
      \<longleftrightarrow> (\<exists>now. gettimeofday P u = ((0, now), v) \<and> \<not> timeout_fits now wait_time)" for u v
    using assms by (subst bind_undefined_iff) (auto dest: cv_wait_for_pred_post simp: cv_wait_for_pred_undefined_iff)
  ultimately show ?thesis
    by (simp add: with_lock_guard_undefined_iff cv_wait_for_guard_pred_def mutex_lock_ok_iff)
qed

lemma sync_queue_get_timed_undefined_iff:
  "sync_queue_get_timed P t q item wait_time w = Some (Inl Undefined, w') \<longleftrightarrow>
    (\<exists>w1 now. pthread_mutex_lock P t (q_mutex q) w = Some (0, w1)
      \<and> gettimeofday P w1 = ((0, now), w') \<and> \<not> timeout_fits now wait_time)"
  unfolding sync_queue_get_timed_def
  by (rule timed_call_undefined_iff) (intro no_ub never_ub_take_front, simp_all)

lemma sync_queue_put_timed_undefined_iff:
  "sync_queue_put_timed P t q x wait_time w = Some (Inl Undefined, w') \<longleftrightarrow>
    (\<exists>w1 now. pthread_mutex_lock P t (q_mutex q) w = Some (0, w1)
      \<and> gettimeofday P w1 = ((0, now), w') \<and> \<not> timeout_fits now wait_time)"
  unfolding sync_queue_put_timed_def
  by (rule timed_call_undefined_iff) (intro no_ub)

section \<open>What the methods do\<close>

lemma cv_notify_one_ok_iff:
  "cv_notify_one P c w = Some (Inr (), w') \<longleftrightarrow> pthread_cond_signal P c w = (0, w')"
  by (cases "pthread_cond_signal P c w") (auto simp: cv_notify_one_def comp_simps)

lemma cv_notify_all_ok_iff:
  "cv_notify_all P c w = Some (Inr (), w') \<longleftrightarrow> pthread_cond_broadcast P c w = (0, w')"
  by (cases "pthread_cond_broadcast P c w") (auto simp: cv_notify_all_def comp_simps)

lemma take_front_ok_iff:
  "take_front item w = Some (Inr (), w') \<longleftrightarrow>
     (\<exists>x rest. q_items w = x # rest \<and> w' = w\<lparr>q_vars := (q_vars w)(item := x), q_items := rest\<rparr>)"
proof (cases "q_items w")
  case Nil
  then show ?thesis by (simp add: take_front_def)
next
  case (Cons x rest)
  then show ?thesis by (auto simp: take_front_run [OF Cons])
qed

lemma push_back_ok_iff:
  "push_back x w = Some (Inr (), w') \<longleftrightarrow> w' = w\<lparr>q_items := q_items w @ [x]\<rparr>"
  by (auto simp: push_back_def modify_def)

text \<open>When the calls without a waiting time return.\<close>

lemma sync_queue_get_returns_iff:
  "sync_queue_get P t q item w = Some (Inr (), w') \<longleftrightarrow>
    (\<exists>w1 n w2 x rest w3. pthread_mutex_lock P t (q_mutex q) w = Some (0, w1)
      \<and> first_wait P t (q_not_empty_cv q) (q_mutex q) queue_not_empty n w1 w2
      \<and> q_items w2 = x # rest
      \<and> pthread_cond_signal P (q_not_full_cv q)
          (w2\<lparr>q_vars := (q_vars w2)(item := x), q_items := rest\<rparr>) = (0, w3)
      \<and> pthread_mutex_unlock P t (q_mutex q) w3 = (0, w'))"
  by (auto simp: sync_queue_get_def with_lock_guard_returns_iff mutex_lock_ok_iff mutex_unlock_ok_iff
      bind_returns_iff cv_wait_guard_pred_def cv_wait_pred_iff take_front_ok_iff cv_notify_one_ok_iff)
    blast+

lemma sync_queue_put_returns_iff:
  "sync_queue_put P t q x w = Some (Inr (), w') \<longleftrightarrow>
    (\<exists>w1 n w2 w3. pthread_mutex_lock P t (q_mutex q) w = Some (0, w1)
      \<and> first_wait P t (q_not_full_cv q) (q_mutex q) queue_not_full n w1 w2
      \<and> pthread_cond_signal P (q_not_empty_cv q) (w2\<lparr>q_items := q_items w2 @ [x]\<rparr>) = (0, w3)
      \<and> pthread_mutex_unlock P t (q_mutex q) w3 = (0, w'))"
  by (auto simp: sync_queue_put_def with_lock_guard_returns_iff mutex_lock_ok_iff mutex_unlock_ok_iff
      bind_returns_iff cv_wait_pred_iff push_back_ok_iff cv_notify_one_ok_iff)

subsection \<open>With a waiting time\<close>

text \<open>Only the queue's own methods throw the queue's exceptions.\<close>

lemma thrown_by_components:
  "mutex_lock P t m w = Some (Inl (Thrown e), w') \<Longrightarrow> is_pthread_exception e"
  "cv_notify_one Q c w = Some (Inl (Thrown e), w') \<Longrightarrow> is_pthread_exception e"
  "cv_notify_all Q c w = Some (Inl (Thrown e), w') \<Longrightarrow> is_pthread_exception e"
  by (auto simp: mutex_lock_def cv_notify_one_def cv_notify_all_def bind_block bind_call exception_defs
      split: option.splits if_splits)

lemma thrown_by_timed_wait:
  assumes "cv_wait_for_pred P t c m millis (gets p) w = Some (Inl (Thrown e), w')"
  shows "is_pthread_exception e"
proof -
  obtain rc now w0 where "gettimeofday P w = ((rc, now), w0)" by (metis surj_pair)
  from assms [unfolded cv_wait_for_pred_cases [OF this]] show ?thesis
    by (auto simp: timed_end_def exception_defs split: if_splits)
qed

lemma thrown_by_take_front: "take_front item w \<noteq> Some (Inl (Thrown e), w')"
  by (cases "q_items w") (simp_all add: take_front_run, simp add: take_front_def)

lemma thrown_by_push_back: "push_back x w \<noteq> Some (Inl (Thrown e), w')"
  by (simp add: push_back_def modify_def)

lemmas queue_outcomes = with_lock_guard_returns_iff with_lock_guard_throws_iff mutex_lock_ok_iff
  mutex_unlock_ok_iff bind_returns_iff bind_throws_iff cv_wait_for_guard_pred_def take_front_ok_iff
  push_back_ok_iff cv_notify_one_ok_iff cv_notify_all_ok_iff thrown_by_take_front thrown_by_push_back

text \<open>When the calls without a waiting time throw: the lock fails, or the notification.\<close>

lemma mutex_lock_throws_iff:
  "mutex_lock P t m w = Some (Inl (Thrown e), w') \<longleftrightarrow>
     (\<exists>rc. rc \<noteq> 0 \<and> pthread_mutex_lock P t m w = Some (rc, w')
       \<and> e = mutex_exception (strerror P) ''pthread_mutex_lock failed.'' rc)"
  by (auto simp: mutex_lock_cases split: option.splits if_splits)

lemma cv_notify_one_throws_iff:
  "cv_notify_one P c w = Some (Inl (Thrown e), w') \<longleftrightarrow>
     (\<exists>rc. rc \<noteq> 0 \<and> pthread_cond_signal P c w = (rc, w')
       \<and> e = condition_variable_exception (strerror P) ''notify_all failed.'' rc)"
  by (cases "pthread_cond_signal P c w") (auto simp: cv_notify_one_def comp_simps)

lemma sync_queue_get_throws_iff:
  "sync_queue_get P t q item w = Some (Inl (Thrown e), w') \<longleftrightarrow>
    (\<exists>rc. rc \<noteq> 0 \<and> pthread_mutex_lock P t (q_mutex q) w = Some (rc, w')
      \<and> e = mutex_exception (strerror P) ''pthread_mutex_lock failed.'' rc)
    \<or> (\<exists>w1 n w2 x rest rc w3. pthread_mutex_lock P t (q_mutex q) w = Some (0, w1)
      \<and> first_wait P t (q_not_empty_cv q) (q_mutex q) queue_not_empty n w1 w2
      \<and> q_items w2 = x # rest \<and> rc \<noteq> 0
      \<and> pthread_cond_signal P (q_not_full_cv q)
          (w2\<lparr>q_vars := (q_vars w2)(item := x), q_items := rest\<rparr>) = (rc, w3)
      \<and> e = condition_variable_exception (strerror P) ''notify_all failed.'' rc
      \<and> pthread_mutex_unlock P t (q_mutex q) w3 = (0, w'))"
  unfolding sync_queue_get_def cv_wait_guard_pred_def
  by (simp add: with_lock_guard_throws_iff mutex_lock_ok_iff mutex_unlock_ok_iff mutex_lock_throws_iff
      bind_throws_iff cv_wait_pred_iff take_front_ok_iff thrown_by_take_front cv_notify_one_throws_iff) blast

lemma sync_queue_put_throws_iff:
  "sync_queue_put P t q x w = Some (Inl (Thrown e), w') \<longleftrightarrow>
    (\<exists>rc. rc \<noteq> 0 \<and> pthread_mutex_lock P t (q_mutex q) w = Some (rc, w')
      \<and> e = mutex_exception (strerror P) ''pthread_mutex_lock failed.'' rc)
    \<or> (\<exists>w1 n w2 rc w3. pthread_mutex_lock P t (q_mutex q) w = Some (0, w1)
      \<and> first_wait P t (q_not_full_cv q) (q_mutex q) queue_not_full n w1 w2 \<and> rc \<noteq> 0
      \<and> pthread_cond_signal P (q_not_empty_cv q) (w2\<lparr>q_items := q_items w2 @ [x]\<rparr>) = (rc, w3)
      \<and> e = condition_variable_exception (strerror P) ''notify_all failed.'' rc
      \<and> pthread_mutex_unlock P t (q_mutex q) w3 = (0, w'))"
  unfolding sync_queue_put_def
  by (simp add: with_lock_guard_throws_iff mutex_lock_ok_iff mutex_unlock_ok_iff mutex_lock_throws_iff
      bind_throws_iff cv_wait_pred_iff push_back_ok_iff thrown_by_push_back cv_notify_one_throws_iff) blast

text \<open>C16: The calls without a waiting time, on every branch.  \<open>get\<close> returns exactly when it locks the
  mutex, waits until an item is there, moves the front item out, notifies a waiting \<open>put\<close> and
  unlocks, each of them successfully and in this order; \<open>put\<close> exactly when it locks, waits until
  there is room, appends the item, notifies a waiting \<open>get\<close> and unlocks.  An exception leaves them
  exactly when the mutex cannot be locked, and then nothing else is done, or when the notification
  fails, and then the list has been changed and the mutex is released on the way out.  There is
  no other exception: an error of the wait itself is not seen.\<close>

theorem sync_queue_calls_outcomes:
  "(sync_queue_get P t q item w = Some (Inr (), w') \<longleftrightarrow>
    (\<exists>w1 n w2 x rest w3. pthread_mutex_lock P t (q_mutex q) w = Some (0, w1)
      \<and> first_wait P t (q_not_empty_cv q) (q_mutex q) queue_not_empty n w1 w2
      \<and> q_items w2 = x # rest
      \<and> pthread_cond_signal P (q_not_full_cv q)
          (w2\<lparr>q_vars := (q_vars w2)(item := x), q_items := rest\<rparr>) = (0, w3)
      \<and> pthread_mutex_unlock P t (q_mutex q) w3 = (0, w')))
   \<and> (sync_queue_get P t q item w = Some (Inl (Thrown e), w') \<longleftrightarrow>
    (\<exists>rc. rc \<noteq> 0 \<and> pthread_mutex_lock P t (q_mutex q) w = Some (rc, w')
      \<and> e = mutex_exception (strerror P) ''pthread_mutex_lock failed.'' rc)
    \<or> (\<exists>w1 n w2 x rest rc w3. pthread_mutex_lock P t (q_mutex q) w = Some (0, w1)
      \<and> first_wait P t (q_not_empty_cv q) (q_mutex q) queue_not_empty n w1 w2
      \<and> q_items w2 = x # rest \<and> rc \<noteq> 0
      \<and> pthread_cond_signal P (q_not_full_cv q)
          (w2\<lparr>q_vars := (q_vars w2)(item := x), q_items := rest\<rparr>) = (rc, w3)
      \<and> e = condition_variable_exception (strerror P) ''notify_all failed.'' rc
      \<and> pthread_mutex_unlock P t (q_mutex q) w3 = (0, w')))
   \<and> (sync_queue_put P t q x w = Some (Inr (), w') \<longleftrightarrow>
    (\<exists>w1 n w2 w3. pthread_mutex_lock P t (q_mutex q) w = Some (0, w1)
      \<and> first_wait P t (q_not_full_cv q) (q_mutex q) queue_not_full n w1 w2
      \<and> pthread_cond_signal P (q_not_empty_cv q) (w2\<lparr>q_items := q_items w2 @ [x]\<rparr>) = (0, w3)
      \<and> pthread_mutex_unlock P t (q_mutex q) w3 = (0, w')))
   \<and> (sync_queue_put P t q x w = Some (Inl (Thrown e), w') \<longleftrightarrow>
    (\<exists>rc. rc \<noteq> 0 \<and> pthread_mutex_lock P t (q_mutex q) w = Some (rc, w')
      \<and> e = mutex_exception (strerror P) ''pthread_mutex_lock failed.'' rc)
    \<or> (\<exists>w1 n w2 rc w3. pthread_mutex_lock P t (q_mutex q) w = Some (0, w1)
      \<and> first_wait P t (q_not_full_cv q) (q_mutex q) queue_not_full n w1 w2 \<and> rc \<noteq> 0
      \<and> pthread_cond_signal P (q_not_empty_cv q) (w2\<lparr>q_items := q_items w2 @ [x]\<rparr>) = (rc, w3)
      \<and> e = condition_variable_exception (strerror P) ''notify_all failed.'' rc
      \<and> pthread_mutex_unlock P t (q_mutex q) w3 = (0, w')))"
  by (rule conjI sync_queue_get_returns_iff sync_queue_get_throws_iff
      sync_queue_put_returns_iff sync_queue_put_throws_iff)+

text \<open>When the calls with a waiting time give up.\<close>

lemma get_timed_gives_up_iff:
  "sync_queue_get_timed P t q item wait_time w =
      Some (Inl (Thrown (queue_timeout ''synchronized_queue::get() timed out.'')), w') \<longleftrightarrow>
    (\<exists>w1 w2 w3. pthread_mutex_lock P t (q_mutex q) w = Some (0, w1)
      \<and> cv_wait_for_pred P t (q_not_empty_cv q) (q_mutex q) wait_time (gets queue_not_empty) w1
          = Some (Inr False, w2)
      \<and> pthread_cond_broadcast P (q_not_full_cv q) w2 = (0, w3)
      \<and> pthread_mutex_unlock P t (q_mutex q) w3 = (0, w'))"
proof -
  let ?e = "queue_timeout ''synchronized_queue::get() timed out.''"
  have no: "\<not> is_pthread_exception ?e" by (simp add: queue_timeout_def)
  have never: "mutex_lock P t m u \<noteq> Some (Inl (Thrown ?e), v)" "cv_notify_one P c u \<noteq> Some (Inl (Thrown ?e), v)"
    "cv_notify_all P c u \<noteq> Some (Inl (Thrown ?e), v)"
    "cv_wait_for_pred P t c m wait_time (gets p) u \<noteq> Some (Inl (Thrown ?e), v)" for m c p u v
    using no by (auto dest: thrown_by_components thrown_by_timed_wait)
  show ?thesis
    by (auto simp: sync_queue_get_timed_def queue_outcomes never split: if_splits)
qed

lemma put_timed_gives_up_iff:
  "sync_queue_put_timed P t q x wait_time w =
      Some (Inl (Thrown (queue_full ''synchronized_queue::put() timeout, queue is full.'')), w') \<longleftrightarrow>
    (\<exists>w1 w2 w3. pthread_mutex_lock P t (q_mutex q) w = Some (0, w1)
      \<and> cv_wait_for_pred P t (q_not_full_cv q) (q_mutex q) wait_time (gets queue_not_full) w1
          = Some (Inr False, w2)
      \<and> pthread_cond_broadcast P (q_not_empty_cv q) w2 = (0, w3)
      \<and> pthread_mutex_unlock P t (q_mutex q) w3 = (0, w'))"
proof -
  let ?e = "queue_full ''synchronized_queue::put() timeout, queue is full.''"
  have no: "\<not> is_pthread_exception ?e" by (simp add: queue_full_def)
  have never: "mutex_lock P t m u \<noteq> Some (Inl (Thrown ?e), v)" "cv_notify_one P c u \<noteq> Some (Inl (Thrown ?e), v)"
    "cv_notify_all P c u \<noteq> Some (Inl (Thrown ?e), v)"
    "cv_wait_for_pred P t c m wait_time (gets p) u \<noteq> Some (Inl (Thrown ?e), v)" for m c p u v
    using no by (auto dest: thrown_by_components thrown_by_timed_wait)
  show ?thesis
    by (auto simp: sync_queue_put_timed_def queue_outcomes never split: if_splits)
qed

text \<open>How the calls with a waiting time end.\<close>

lemma sync_queue_get_timed_outcomes:
  "(sync_queue_get_timed P t q item wait_time w =
      Some (Inl (Thrown (queue_timeout ''synchronized_queue::get() timed out.'')), w') \<longleftrightarrow>
    (\<exists>w1 w2 w3. pthread_mutex_lock P t (q_mutex q) w = Some (0, w1)
      \<and> cv_wait_for_pred P t (q_not_empty_cv q) (q_mutex q) wait_time (gets queue_not_empty) w1
          = Some (Inr False, w2)
      \<and> q_items w2 = [] \<and> pthread_cond_broadcast P (q_not_full_cv q) w2 = (0, w3)
      \<and> pthread_mutex_unlock P t (q_mutex q) w3 = (0, w')))
  \<and> (sync_queue_get_timed P t q item wait_time w = Some (Inr (), w') \<longleftrightarrow>
    (\<exists>w1 w2 x rest w3. pthread_mutex_lock P t (q_mutex q) w = Some (0, w1)
      \<and> cv_wait_for_pred P t (q_not_empty_cv q) (q_mutex q) wait_time (gets queue_not_empty) w1
          = Some (Inr True, w2)
      \<and> q_items w2 = x # rest
      \<and> pthread_cond_signal P (q_not_full_cv q)
          (w2\<lparr>q_vars := (q_vars w2)(item := x), q_items := rest\<rparr>) = (0, w3)
      \<and> pthread_mutex_unlock P t (q_mutex q) w3 = (0, w')))"
proof -
  have empty: "cv_wait_for_pred P t (q_not_empty_cv q) (q_mutex q) wait_time (gets queue_not_empty) u
      = Some (Inr False, v) \<Longrightarrow> q_items v = []" for u v
    by (auto dest: cv_wait_for_pred_post simp: queue_not_empty_def)
  show ?thesis
    unfolding get_timed_gives_up_iff
  proof (rule conjI, goal_cases)
    case 1
    show ?case using empty by blast
  next
    case 2
    show ?case using empty by (auto simp: sync_queue_get_timed_def queue_outcomes split: if_splits) blast+
  qed
qed

lemma sync_queue_put_timed_outcomes:
  "(sync_queue_put_timed P t q x wait_time w =
      Some (Inl (Thrown (queue_full ''synchronized_queue::put() timeout, queue is full.'')), w') \<longleftrightarrow>
    (\<exists>w1 w2 w3. pthread_mutex_lock P t (q_mutex q) w = Some (0, w1)
      \<and> cv_wait_for_pred P t (q_not_full_cv q) (q_mutex q) wait_time (gets queue_not_full) w1
          = Some (Inr False, w2)
      \<and> \<not> has_room (q_items w2) (q_max_size w2)
      \<and> pthread_cond_broadcast P (q_not_empty_cv q) w2 = (0, w3)
      \<and> pthread_mutex_unlock P t (q_mutex q) w3 = (0, w')))
  \<and> (sync_queue_put_timed P t q x wait_time w = Some (Inr (), w') \<longleftrightarrow>
    (\<exists>w1 w2 w3. pthread_mutex_lock P t (q_mutex q) w = Some (0, w1)
      \<and> cv_wait_for_pred P t (q_not_full_cv q) (q_mutex q) wait_time (gets queue_not_full) w1
          = Some (Inr True, w2)
      \<and> has_room (q_items w2) (q_max_size w2)
      \<and> pthread_cond_signal P (q_not_empty_cv q) (w2\<lparr>q_items := q_items w2 @ [x]\<rparr>) = (0, w3)
      \<and> pthread_mutex_unlock P t (q_mutex q) w3 = (0, w')))"
proof -
  have post: "cv_wait_for_pred P t (q_not_full_cv q) (q_mutex q) wait_time (gets queue_not_full) u
      = Some (Inr b, v) \<Longrightarrow> has_room (q_items v) (q_max_size v) = b" for u v b
    by (auto dest: cv_wait_for_pred_post simp: queue_not_full_def)
  show ?thesis
    unfolding put_timed_gives_up_iff
  proof (rule conjI, goal_cases)
    case 1
    show ?case using post by blast
  next
    case 2
    show ?case using post by (auto simp: sync_queue_put_timed_def queue_outcomes split: if_splits)
  qed
qed

text \<open>C17: \<open>get\<close> with a waiting time throws \<open>queue_timeout\<close> exactly when the timed wait gives up with
  an empty list, \<open>not_full\<close> has been broadcast and the mutex released; nothing is taken then.  It
  returns exactly when the wait finds an item, which it moves to the caller's variable.  \<open>put\<close>
  throws \<open>queue_full\<close> exactly when the timed wait gives up with no room in the list, and returns
  exactly when it finds room, and has appended the item.\<close>

theorem sync_queue_timed_outcomes:
  "(sync_queue_get_timed P t q item wait_time w =
      Some (Inl (Thrown (queue_timeout ''synchronized_queue::get() timed out.'')), w') \<longleftrightarrow>
    (\<exists>w1 w2 w3. pthread_mutex_lock P t (q_mutex q) w = Some (0, w1)
      \<and> cv_wait_for_pred P t (q_not_empty_cv q) (q_mutex q) wait_time (gets queue_not_empty) w1
          = Some (Inr False, w2)
      \<and> q_items w2 = [] \<and> pthread_cond_broadcast P (q_not_full_cv q) w2 = (0, w3)
      \<and> pthread_mutex_unlock P t (q_mutex q) w3 = (0, w')))
  \<and> (sync_queue_get_timed P t q item wait_time w = Some (Inr (), w') \<longleftrightarrow>
    (\<exists>w1 w2 x rest w3. pthread_mutex_lock P t (q_mutex q) w = Some (0, w1)
      \<and> cv_wait_for_pred P t (q_not_empty_cv q) (q_mutex q) wait_time (gets queue_not_empty) w1
          = Some (Inr True, w2)
      \<and> q_items w2 = x # rest
      \<and> pthread_cond_signal P (q_not_full_cv q)
          (w2\<lparr>q_vars := (q_vars w2)(item := x), q_items := rest\<rparr>) = (0, w3)
      \<and> pthread_mutex_unlock P t (q_mutex q) w3 = (0, w')))
  \<and> (sync_queue_put_timed P t q x wait_time w =
      Some (Inl (Thrown (queue_full ''synchronized_queue::put() timeout, queue is full.'')), w') \<longleftrightarrow>
    (\<exists>w1 w2 w3. pthread_mutex_lock P t (q_mutex q) w = Some (0, w1)
      \<and> cv_wait_for_pred P t (q_not_full_cv q) (q_mutex q) wait_time (gets queue_not_full) w1
          = Some (Inr False, w2)
      \<and> \<not> has_room (q_items w2) (q_max_size w2)
      \<and> pthread_cond_broadcast P (q_not_empty_cv q) w2 = (0, w3)
      \<and> pthread_mutex_unlock P t (q_mutex q) w3 = (0, w')))
  \<and> (sync_queue_put_timed P t q x wait_time w = Some (Inr (), w') \<longleftrightarrow>
    (\<exists>w1 w2 w3. pthread_mutex_lock P t (q_mutex q) w = Some (0, w1)
      \<and> cv_wait_for_pred P t (q_not_full_cv q) (q_mutex q) wait_time (gets queue_not_full) w1
          = Some (Inr True, w2)
      \<and> has_room (q_items w2) (q_max_size w2)
      \<and> pthread_cond_signal P (q_not_empty_cv q) (w2\<lparr>q_items := q_items w2 @ [x]\<rparr>) = (0, w3)
      \<and> pthread_mutex_unlock P t (q_mutex q) w3 = (0, w')))"
  using sync_queue_get_timed_outcomes [of P t q item wait_time w w']
    sync_queue_put_timed_outcomes [of P t q x wait_time w w'] by simp

subsection \<open>The maximum size\<close>

text \<open>A \<open>size_t\<close> narrowed to \<open>int\<close> and widened again.\<close>

lemma narrow_roundtrip:
  "(scast (ucast n :: cint) :: size_t) = n \<longleftrightarrow> unat n < 2 ^ 31 \<or> 2 ^ 64 - 2 ^ 31 \<le> unat n"
proof -
  define u where "u = uint n"
  have u: "0 \<le> u" "u < 18446744073709551616" using uint_lt2p [of n] by (simp_all add: u_def)
  define v where "v = (u + 2147483648) mod 4294967296 - 2147483648"
  have "sint (ucast n :: cint) = v"
    by (simp add: sint_uint unsigned_ucast_eq signed_take_bit_eq_take_bit_shift u_def v_def take_bit_eq_mod mod_simps)
  then have "(scast (ucast n :: cint) :: size_t) = word_of_int v"
    by (simp add: scast_eq)
  then have "(scast (ucast n :: cint) :: size_t) = n \<longleftrightarrow> v mod 18446744073709551616 = u"
    by (simp only: word_uint_eq_iff uint_word_of_int u_def) simp
  also have "\<dots> \<longleftrightarrow> u < 2147483648 \<or> 18446744071562067968 \<le> u"
  proof -
    have vb: "- 2147483648 \<le> v" "v < 2147483648"
      using pos_mod_bound [of 4294967296 "u + 2147483648"] pos_mod_sign [of 4294967296 "u + 2147483648"]
      by (simp_all add: v_def)
    have "v mod 18446744073709551616 = (v + 18446744073709551616) mod 18446744073709551616" by simp
    also have "\<dots> = v + 18446744073709551616" if "v < 0"
      by (rule mod_pos_pos_trivial) (use vb that in simp_all)
    finally have wrap: "v mod 18446744073709551616 = (if v < 0 then v + 18446744073709551616 else v)"
      using vb by simp
    have low: "v = u" if "u < 2147483648"
      using that u by (simp add: v_def)
    have high: "v = u - 18446744073709551616" if "18446744071562067968 \<le> u"
    proof -
      define z where "z = u + 2147483648 - 18446744073709551616"
      have "u + 2147483648 = z + 4294967296 * 4294967296" by (simp add: z_def)
      then have "(u + 2147483648) mod 4294967296 = z mod 4294967296" by (simp only: mod_mult_self2)
      also have "\<dots> = z" by (rule mod_pos_pos_trivial) (use that u in \<open>simp_all add: z_def\<close>)
      finally show ?thesis by (simp add: v_def z_def)
    qed
    show ?thesis
    proof (cases "u < 2147483648 \<or> 18446744071562067968 \<le> u")
      case True
      then have "v mod 18446744073709551616 = u" using low high u unfolding wrap by fastforce
      with True show ?thesis by blast
    next
      case False
      then have "v mod 18446744073709551616 \<noteq> u" using vb unfolding wrap by simp
      with False show ?thesis by blast
    qed
  qed
  also have "\<dots> \<longleftrightarrow> unat n < 2 ^ 31 \<or> 2 ^ 64 - 2 ^ 31 \<le> unat n"
  proof -
    have "int (unat n) = u" by (simp add: u_def)
    then have "u < 2147483648 \<longleftrightarrow> unat n < 2147483648"
      and "18446744071562067968 \<le> u \<longleftrightarrow> 18446744071562067968 \<le> unat n" by linarith+
    then show ?thesis by simp
  qed
  finally show ?thesis .
qed

text \<open>C35: \<open>set_max_size\<close> accepts every value, 0 included, and keeps its low 32 bits only:
  \<open>max_size\<close> gives the value back exactly when it fits a non-negative \<open>int\<close> or is among the last
  \<open>2 ^ 31\<close> values of \<open>size_t\<close>.\<close>

theorem set_max_size_narrows:
  "sync_queue_set_max_size n w = Some (Inr (), w\<lparr>q_max_size := ucast n\<rparr>)
   \<and> (seq (sync_queue_set_max_size n) sync_queue_max_size w = Some (Inr n, w\<lparr>q_max_size := ucast n\<rparr>)
       \<longleftrightarrow> unat n < 2 ^ 31 \<or> 2 ^ 64 - 2 ^ 31 \<le> unat n)"
proof -
  have run: "sync_queue_set_max_size n w = Some (Inr (), w\<lparr>q_max_size := ucast n\<rparr>)"
    by (simp add: sync_queue_set_max_size_def modify_def)
  then show ?thesis
    using narrow_roundtrip [of n] by (simp add: bind_def sync_queue_max_size_def int_to_size_t_def gets_def)
qed

section \<open>Lifetime\<close>

text \<open>
  \<open>builds state A m w\<close>: from \<open>w\<close>, \<open>m\<close> comes back, and has initialised the objects of \<open>A\<close>, or has
  thrown and left no object behind.
\<close>

definition builds ::
  "('w \<Rightarrow> addr \<Rightarrow> object_state) \<Rightarrow> addr set \<Rightarrow> ('w, exn, unit) comp \<Rightarrow> 'w \<Rightarrow> bool" where
  "builds state A m w \<longleftrightarrow> (\<exists>r w'. m w = Some (r, w')
     \<and> (r = Inr () \<and> state w' = override_on (state w) (\<lambda>_. Unused) A
        \<or> (\<exists>e. r = Inl (Thrown e)) \<and> state w' = state w))"

lemma builds_stores:
  "(\<And>w. state (h w) = state w) \<Longrightarrow> builds state A m (h w) \<Longrightarrow> builds state A (seq (modify h) m) w"
  by (simp add: builds_def)

lemma builds_modify: "(\<And>w. state (h w) = state w) \<Longrightarrow> builds state {} (modify h) w"
  by (simp add: builds_def modify_def)

lemma builds_seq_modify:
  assumes "builds state A m w" and "\<And>w. state (h w) = state w"
  shows "builds state A (seq m (modify h)) w"
  using assms by (auto simp: builds_def bind_def modify_def)

text \<open>A member and then the rest, which undoes the member when it throws.\<close>

lemma builds_member:
  assumes ctor: "builds state {a} ctor w" and a: "state w a = Uninitialised" "a \<notin> A"
    and rest: "\<And>w'. state w' = (state w)(a := Unused) \<Longrightarrow> builds state A rest w'"
    and dtor: "\<And>w'. state w' = (state w)(a := Unused) \<Longrightarrow>
      \<exists>w''. dtor w' = Some (Inr (), w'') \<and> state w'' = (state w')(a := Uninitialised)"
  shows "builds state (insert a A) (seq ctor (on_throw rest dtor)) w"
proof -
  from ctor obtain r w1 where run: "ctor w = Some (r, w1)"
    and out: "r = Inr () \<and> state w1 = (state w)(a := Unused) \<or> (\<exists>e. r = Inl (Thrown e)) \<and> state w1 = state w"
    by (auto simp: builds_def override_on_def fun_eq_iff)
  from out show ?thesis
  proof (elim disjE conjE exE)
    assume r: "r = Inr ()" and w1: "state w1 = (state w)(a := Unused)"
    from rest [OF w1] obtain s w2 where rest_run: "rest w1 = Some (s, w2)"
      and "s = Inr () \<and> state w2 = override_on (state w1) (\<lambda>_. Unused) A
        \<or> (\<exists>e. s = Inl (Thrown e)) \<and> state w2 = state w1" unfolding builds_def by blast
    then show ?thesis
    proof (elim disjE conjE exE)
      assume "s = Inr ()" "state w2 = override_on (state w1) (\<lambda>_. Unused) A"
      with run r rest_run w1 a(2) show ?thesis
        by (auto simp: builds_def bind_Inr on_throw_kept override_on_def fun_eq_iff)
    next
      fix e
      assume s: "s = Inl (Thrown e)" "state w2 = state w1"
      with dtor [of w2] w1 obtain w3 where "dtor w2 = Some (Inr (), w3)" "state w3 = state w"
        using a(1) by (auto simp: fun_eq_iff)
      with run r rest_run s show ?thesis by (auto simp: builds_def bind_Inr on_throw_undone)
    qed
  next
    fix e
    assume "r = Inl (Thrown e)" "state w1 = state w"
    with run show ?thesis by (auto simp: builds_def bind_Inl)
  qed
qed

context posix_lifetimes
begin

lemma mutex_dtor_unused:
  "state w m = Unused \<Longrightarrow>
     \<exists>w'. mutex_dtor P m w = Some (Inr (), w') \<and> state w' = (state w)(m := Uninitialised)"
  using mutex_destroy_unused [of w m] by (auto simp: mutex_dtor_def comp_simps)

lemma cv_dtor_unused:
  "state w c = Unused \<Longrightarrow>
     \<exists>w'. cv_dtor P c w = Some (Inr (), w') \<and> state w' = (state w)(c := Uninitialised)"
  using cond_destroy_unused [of w c] by (auto simp: cv_dtor_def comp_simps)

lemma cv_dtor_refused:
  assumes "state w c = In_use" and "pthread_cond_destroy P c w = (rc, w')" and "rc \<noteq> 0"
  shows "cv_dtor P c w = Some (Inl (Thrown (condition_variable_exception (strerror P)
      ''pthread condition variable destroy failed.'' rc)), w') \<and> state w' = state w"
  using cond_destroy_refused [OF assms] assms(2,3) by (simp add: cv_dtor_def comp_simps)

lemma mutex_ctor_builds: "state w m = Uninitialised \<Longrightarrow> builds state {m} (mutex_ctor P m) w"
  using mutex_init_state [of w m]
  by (cases "pthread_mutex_init P m w") (auto simp: builds_def mutex_ctor_def comp_simps override_on_def fun_eq_iff)

lemma cv_ctor_builds: "state w c = Uninitialised \<Longrightarrow> builds state {c} (cv_ctor P c) w"
  using cond_init_state [of w c]
  by (cases "pthread_cond_init P c w") (auto simp: builds_def cv_ctor_def comp_simps override_on_def fun_eq_iff)

lemma mutex_then_builds:
  assumes "state w m = Uninitialised" and "m \<notin> A"
    and "\<And>w'. state w' = (state w)(m := Unused) \<Longrightarrow> builds state A rest w'"
  shows "builds state (insert m A) (seq (mutex_ctor P m) (on_throw rest (mutex_dtor P m))) w"
  using assms by (intro builds_member mutex_ctor_builds mutex_dtor_unused) simp_all

lemma cv_then_builds:
  assumes "state w c = Uninitialised" and "c \<notin> A"
    and "\<And>w'. state w' = (state w)(c := Unused) \<Longrightarrow> builds state A rest w'"
  shows "builds state (insert c A) (seq (cv_ctor P c) (on_throw rest (cv_dtor P c))) w"
  using assms by (intro builds_member cv_ctor_builds cv_dtor_unused) simp_all

text \<open>The three members of a queue without its read-write lock, destroyed in the reverse order.\<close>

lemma queue_members_destroyed:
  assumes d: "distinct [m, e, f]" and w: "state w m = Unused" "state w e = Unused" "state w f = Unused"
  shows "\<exists>w'. seq (on_throw (cv_dtor P f) (seq (cv_dtor P e) (mutex_dtor P m)))
      (seq (on_throw (cv_dtor P e) (mutex_dtor P m)) (mutex_dtor P m)) w = Some (Inr (), w')
    \<and> state w' = (state w)(m := Uninitialised, e := Uninitialised, f := Uninitialised)"
proof -
  obtain w1 where 1: "cv_dtor P f w = Some (Inr (), w1)" "state w1 = (state w)(f := Uninitialised)"
    using cv_dtor_unused w(3) by blast
  obtain w2 where 2: "cv_dtor P e w1 = Some (Inr (), w2)" "state w2 = (state w1)(e := Uninitialised)"
    using cv_dtor_unused [of w1 e] 1(2) w(2) d by auto
  obtain w3 where 3: "mutex_dtor P m w2 = Some (Inr (), w3)" "state w3 = (state w2)(m := Uninitialised)"
    using mutex_dtor_unused [of w2 m] 1(2) 2(2) w(1) d by auto
  from 1 2 3 d show ?thesis by (simp add: bind_Inr on_throw_kept fun_upd_twist)
qed

text \<open>A condition that is in use and cannot be destroyed: the other members are.\<close>

lemma queue_member_refused:
  assumes d: "distinct [m, e, f]" and w: "state w m = Unused" "state w e = Unused" "state w f = In_use"
    and "pthread_cond_destroy P f w = (rc, w1)" and "rc \<noteq> 0"
  shows "\<exists>w'. seq (on_throw (cv_dtor P f) (seq (cv_dtor P e) (mutex_dtor P m)))
      (seq (on_throw (cv_dtor P e) (mutex_dtor P m)) (mutex_dtor P m)) w
        = Some (Inl (Thrown (condition_variable_exception (strerror P)
            ''pthread condition variable destroy failed.'' rc)), w')
    \<and> state w' = (state w)(m := Uninitialised, e := Uninitialised)"
proof -
  note 1 = cv_dtor_refused [OF w(3) assms(5,6)]
  obtain w2 where 2: "cv_dtor P e w1 = Some (Inr (), w2)" "state w2 = (state w1)(e := Uninitialised)"
    using cv_dtor_unused [of w1 e] 1 w(2) by auto
  obtain w3 where 3: "mutex_dtor P m w2 = Some (Inr (), w3)" "state w3 = (state w2)(m := Uninitialised)"
    using mutex_dtor_unused [of w2 m] 1 2(2) w(1) d by auto
  from 2(1) 3(1) have "seq (cv_dtor P e) (mutex_dtor P m) w1 = Some (Inr (), w3)" by (simp add: bind_Inr)
  with conjunct1 [OF 1] have "on_throw (cv_dtor P f) (seq (cv_dtor P e) (mutex_dtor P m)) w
      = Some (Inl (Thrown (condition_variable_exception (strerror P)
          ''pthread condition variable destroy failed.'' rc)), w3)" by (rule on_throw_undone)
  with 1 2(2) 3(2) d show ?thesis by (simp add: bind_Inl fun_upd_twist)
qed

end

lemma sync_queue_ctor_builds:
  fixes state :: "('a, 'y) queue_mem_scheme \<Rightarrow> addr \<Rightarrow> object_state"
    and P :: "(('a, 'y) queue_mem_scheme, 'x) cond_api_scheme"
  assumes L: "posix_lifetimes P state" and d: "distinct [q_mutex q, q_not_empty_cv q, q_not_full_cv q]"
    and mem: "\<And>w. state (w\<lparr>q_items := [], q_max_size := max_size\<rparr>) = state w"
    and w: "state w (q_mutex q) = Uninitialised" "state w (q_not_empty_cv q) = Uninitialised"
      "state w (q_not_full_cv q) = Uninitialised"
  shows "builds state {q_mutex q, q_not_empty_cv q, q_not_full_cv q} (sync_queue_ctor P q max_size) w"
  unfolding sync_queue_ctor_def using w d
  by (intro posix_lifetimes.mutex_then_builds [OF L] posix_lifetimes.cv_then_builds [OF L]
      builds_seq_modify posix_lifetimes.cv_ctor_builds [OF L] mem) simp_all

subsection \<open>The world of the concrete instances\<close>

abbreviation queue_world_put ::
  "kernel \<Rightarrow> (nat, kernel) queue_mem_scheme \<Rightarrow> (nat, kernel) queue_mem_scheme" where
  "queue_world_put k \<equiv> queue_mem.more_update (\<lambda>_. k)"

interpretation queue_world: kernel_view queue_mem.more queue_world_put
  by unfold_locales simp

definition queue_world0 :: "(nat, kernel) queue_mem_scheme" where
  "queue_world0 = \<lparr>cv_timeout = (\<lambda>_. \<lparr>tv_sec = 0, tv_nsec = 0\<rparr>), q_items = [4, 5], q_max_size = 2,
     q_vars = (\<lambda>_. 0), \<dots> = kernel0\<rparr>"


text \<open>A queue is built, and destroyed: while nobody uses it, and while a thread waits for room.\<close>

abbreviation queue_api0 :: "(nat, kernel) queue_mem_scheme cond_api" where
  "queue_api0 \<equiv> ref_api queue_mem.more queue_world_put (\<lambda>_. None)"

abbreviation queue0 :: sync_queue where
  "queue0 \<equiv> \<lparr>q_mutex = 1, q_not_empty_cv = 2, q_not_full_cv = 3\<rparr>"

definition queue_built :: "object_state \<Rightarrow> (nat, kernel) queue_mem_scheme" where
  "queue_built not_full = queue_world_put
     (kernel0\<lparr>k_objects := (\<lambda>_. Uninitialised)(1 := Unused, 2 := Unused, 3 := not_full)\<rparr>) queue_world0"


section \<open>Undefined behaviour\<close>

text \<open>C18: whatever the system does, \<open>get\<close> and \<open>put\<close> without a waiting time have no undefined
  behaviour; in particular none takes the front of an empty list.  The calls with a waiting time
  have it exactly when they have the mutex and the clock then gives a time from which the deadline
  cannot be computed without an overflow; a clock that answers as documented gives none such.\<close>

theorem sync_queue_no_undefined_behaviour:
  "never_ub (sync_queue_get P t q item) w \<and> never_ub (sync_queue_put P t q x) w
   \<and> (sync_queue_get_timed P t q item wait_time w = Some (Inl Undefined, w') \<longleftrightarrow>
      (\<exists>w1 now. pthread_mutex_lock P t (q_mutex q) w = Some (0, w1)
        \<and> gettimeofday P w1 = ((0, now), w') \<and> \<not> timeout_fits now wait_time))
   \<and> (sync_queue_put_timed P t q x wait_time w = Some (Inl Undefined, w') \<longleftrightarrow>
      (\<exists>w1 now. pthread_mutex_lock P t (q_mutex q) w = Some (0, w1)
        \<and> gettimeofday P w1 = ((0, now), w') \<and> \<not> timeout_fits now wait_time))
   \<and> (\<forall>now. clock_ok now \<longrightarrow> timeout_fits now wait_time)"
  by (simp add: never_ub_get never_ub_put sync_queue_get_timed_undefined_iff
      sync_queue_put_timed_undefined_iff clock_ok_fits)

text \<open>With the clock of the reference system there is none, with one at the end of time there is.\<close>

definition queue_world_late :: "(nat, kernel) queue_mem_scheme" where
  "queue_world_late = queue_world_put
     (kernel0\<lparr>k_now := \<lparr>now_sec = 9223372036854775807, now_usec = 0\<rparr>\<rparr>) queue_world0"

lemma sync_queue_no_undefined_behaviour_witness:
  "never_ub (sync_queue_get_timed queue_api0 1 queue0 0 20) queue_world0
   \<and> (\<exists>w'. sync_queue_get_timed queue_api0 1 queue0 0 1000 queue_world_late = Some (Inl Undefined, w'))"
proof -
  have "clock_ok (k_now kernel0)" by (simp add: clock_ok_def kernel0_def)
  then have fits: "timeout_fits (k_now kernel0) 20"
    using sync_queue_no_undefined_behaviour [where P = queue_api0 and wait_time = 20] by blast
  have no: "\<not> timeout_fits \<lparr>now_sec = 9223372036854775807, now_usec = 0\<rparr> 1000" by code_simp
  have "k_now (queue_mem.more w1) = k_now (queue_mem.more w)"
    if "pthread_mutex_lock queue_api0 1 1 w = Some (0, w1)" for w w1
    using that by (auto simp: ref_api_def ref_lock_def Let_def split: option.splits if_splits)
  moreover have "gettimeofday queue_api0 w = ((0, k_now (queue_mem.more w)), w)" for w
    by (simp add: ref_api_def)
  moreover have "\<exists>w1. pthread_mutex_lock queue_api0 1 1 queue_world_late = Some (0, w1)"
    by (simp add: ref_api_def ref_lock_def Let_def queue_world_late_def kernel0_def)
  moreover have "k_now (queue_mem.more queue_world0) = k_now kernel0"
    "k_now (queue_mem.more queue_world_late) = \<lparr>now_sec = 9223372036854775807, now_usec = 0\<rparr>"
    by (simp_all add: queue_world0_def queue_world_late_def)
  ultimately show ?thesis
    using fits no by (fastforce simp: never_ub_def sync_queue_no_undefined_behaviour)
qed

end
