(* ===== verification/Sync_Queue_Steps.thy ===== *)
theory Sync_Queue_Steps
  imports Sync_Queue
begin

text \<open>
  The queue used by many threads.  A thread that runs \<open>get\<close> or \<open>put\<close> is at one of the stages
  of the method's body; a step is one thread moving to its next stage, in any order the
  scheduler likes.  The primitives are those of POSIX: a mutex with one owner; a wait that
  releases the mutex and blocks in one step; a signal that unblocks at least one waiting
  thread, if there is one, and maybe more; a broadcast that unblocks all; wake-ups without a
  signal; time-outs at any moment for the waits that have a deadline.  Calls of the system that
  fail are steps of their own, beside the others.
\<close>

section \<open>Threads and the system\<close>

text \<open>The call a thread makes; the flag says that it gave a waiting time.\<close>

datatype 'a op = Get bool | Put 'a bool

fun timed :: "'a op \<Rightarrow> bool" where
  "timed (Get b) = b"
| "timed (Put x b) = b"

datatype result = Returned | Queue_error | Cv_error

text \<open>
  Where in the method's body a thread is.  \<open>Lock\<close>: in the guard's constructor.  \<open>Test\<close>:
  about to evaluate the lambda, the flag says that the last wait timed out.  \<open>Waiting\<close>:
  blocked in the wait, not notified.  \<open>Woken\<close>: unblocked, about to take the mutex back.
  \<open>Commit\<close>: about to change the list.  \<open>Notify\<close>: about to call \<open>notify_one\<close>.  \<open>Fail\<close>:
  about to call \<open>notify_all\<close> and throw.  \<open>Unlock\<close>: in the guard's destructor, leaving with a
  result.
\<close>

datatype stage =
    Lock | Test bool | Waiting | Woken bool | Commit | Notify | Fail | Unlock result

datatype 'a pc = Idle | Running "'a op" stage

record 'a system =
  sys_items :: "'a list"
  sys_max :: cint
  sys_owner :: "pthread_t option"
  sys_pc :: "pthread_t \<Rightarrow> 'a pc"
  sys_put :: "'a list"
  sys_got :: "'a list"

text \<open>The last two fields are a history: the items in the order they went in and came out.\<close>

definition initial :: "cint \<Rightarrow> 'a system" where
  "initial max_size = \<lparr>sys_items = [], sys_max = max_size, sys_owner = None, sys_pc = (\<lambda>_. Idle),
     sys_put = [], sys_got = []\<rparr>"

text \<open>The lambda of each method, and the list operation it guards.\<close>

fun ready :: "'a op \<Rightarrow> 'a list \<Rightarrow> cint \<Rightarrow> bool" where
  "ready (Get _) items max_size = (items \<noteq> [])"
| "ready (Put _ _) items max_size = has_room items max_size"

fun is_get :: "'a op \<Rightarrow> bool" where
  "is_get (Get _) = True"
| "is_get (Put _ _) = False"

text \<open>Who waits on the condition a call of the other kind notifies.\<close>

definition waiting_for :: "bool \<Rightarrow> 'a system \<Rightarrow> pthread_t \<Rightarrow> bool" where
  "waiting_for getters s t \<longleftrightarrow>
     (case sys_pc s t of Running op Waiting \<Rightarrow> is_get op = getters | _ \<Rightarrow> False)"

definition goto :: "pthread_t \<Rightarrow> 'a op \<Rightarrow> stage \<Rightarrow> 'a system \<Rightarrow> 'a system" where
  "goto t op st s = s\<lparr>sys_pc := (sys_pc s)(t := Running op st)\<rparr>"

fun wake_pc :: "'a pc \<Rightarrow> 'a pc" where
  "wake_pc (Running op Waiting) = Running op (Woken False)"
| "wake_pc p = p"

definition wake :: "pthread_t set \<Rightarrow> 'a system \<Rightarrow> 'a system" where
  "wake V s = s\<lparr>sys_pc := (\<lambda>u. if u \<in> V then wake_pc (sys_pc s u) else sys_pc s u)\<rparr>"

section \<open>Steps\<close>

inductive step :: "'a system \<Rightarrow> 'a system \<Rightarrow> bool" where
  start: "sys_pc s t = Idle \<Longrightarrow> step s (goto t op Lock s)"
| lock: "sys_pc s t = Running op Lock \<Longrightarrow> sys_owner s = None \<Longrightarrow>
    step s (goto t op (Test False) (s\<lparr>sys_owner := Some t\<rparr>))"
| test_true: "sys_pc s t = Running op (Test timed_out) \<Longrightarrow> ready op (sys_items s) (sys_max s) \<Longrightarrow>
    step s (goto t op Commit s)"
| wait: "sys_pc s t = Running op (Test False) \<Longrightarrow> \<not> ready op (sys_items s) (sys_max s) \<Longrightarrow>
    step s (goto t op Waiting (s\<lparr>sys_owner := None\<rparr>))"
| refused: "sys_pc s t = Running op (Test False) \<Longrightarrow> \<not> ready op (sys_items s) (sys_max s) \<Longrightarrow>
    timed op \<Longrightarrow> step s (goto t op (Unlock Cv_error) s)"
| give_up: "sys_pc s t = Running op (Test True) \<Longrightarrow> \<not> ready op (sys_items s) (sys_max s) \<Longrightarrow>
    step s (goto t op Fail s)"
| spurious: "sys_pc s t = Running op Waiting \<Longrightarrow> step s (goto t op (Woken False) s)"
| time_out: "sys_pc s t = Running op Waiting \<Longrightarrow> timed op \<Longrightarrow> step s (goto t op (Woken True) s)"
| relock: "sys_pc s t = Running op (Woken timed_out) \<Longrightarrow> sys_owner s = None \<Longrightarrow>
    step s (goto t op (Test timed_out) (s\<lparr>sys_owner := Some t\<rparr>))"
| take: "sys_pc s t = Running (Get b) Commit \<Longrightarrow> sys_items s = x # rest \<Longrightarrow>
    step s (goto t (Get b) Notify (s\<lparr>sys_items := rest, sys_got := sys_got s @ [x]\<rparr>))"
| push: "sys_pc s t = Running (Put x b) Commit \<Longrightarrow>
    step s (goto t (Put x b) Notify
      (s\<lparr>sys_items := sys_items s @ [x], sys_put := sys_put s @ [x]\<rparr>))"
| notify_one: "sys_pc s t = Running op Notify \<Longrightarrow>
    V \<subseteq> {u. waiting_for (\<not> is_get op) s u} \<Longrightarrow>
    (V = {} \<longrightarrow> (\<forall>u. \<not> waiting_for (\<not> is_get op) s u)) \<Longrightarrow>
    step s (goto t op (Unlock Returned) (wake V s))"
| notify_all: "sys_pc s t = Running op Fail \<Longrightarrow>
    step s (goto t op (Unlock Queue_error) (wake {u. waiting_for (\<not> is_get op) s u} s))"
| unlock: "sys_pc s t = Running op (Unlock r) \<Longrightarrow>
    step s (s\<lparr>sys_owner := None, sys_pc := (sys_pc s)(t := Idle)\<rparr>)"

text \<open>\<open>set_max_size\<close> stores the new size at any moment, without the mutex and without a notification.\<close>

inductive resize :: "'a system \<Rightarrow> 'a system \<Rightarrow> bool" where
  "resize s (s\<lparr>sys_max := ucast (n :: size_t)\<rparr>)"

text \<open>
  System calls that fail.  A mutex that cannot be locked ends the call in the guard's constructor.
  Where the clock cannot be read there is no deadline, and where a notification fails nobody is
  woken up: the exception leaves the body and the guard's destructor is next.  The relation lets
  the clock fail before any test, the code reads it before the first one.  A wait that fails
  without blocking is not a step: the code ignores the error and the thread is where it was.
\<close>

inductive fault :: "'a system \<Rightarrow> 'a system \<Rightarrow> bool" where
  lock_fails: "sys_pc s t = Running op Lock \<Longrightarrow>
    fault s (s\<lparr>sys_pc := (sys_pc s)(t := Idle)\<rparr>)"
| clock_fails: "sys_pc s t = Running op (Test False) \<Longrightarrow> timed op \<Longrightarrow>
    fault s (goto t op (Unlock Cv_error) s)"
| notify_fails: "sys_pc s t = Running op Notify \<Longrightarrow> fault s (goto t op (Unlock Cv_error) s)"
| broadcast_fails: "sys_pc s t = Running op Fail \<Longrightarrow> fault s (goto t op (Unlock Cv_error) s)"

definition sys_step :: "'a system \<Rightarrow> 'a system \<Rightarrow> bool" where
  "sys_step s s' \<longleftrightarrow> step s s' \<or> fault s s'"

lemma step_sys_step: "step s s' \<Longrightarrow> sys_step s s'" and fault_sys_step: "fault s s' \<Longrightarrow> sys_step s s'"
  by (simp_all add: sys_step_def)

text \<open>Runs in which the size is fixed, and runs in which it may change.\<close>

inductive reachable :: "cint \<Rightarrow> 'a system \<Rightarrow> bool" for max_size where
  reach_init: "reachable max_size (initial max_size)"
| reach_step: "reachable max_size s \<Longrightarrow> step s s' \<Longrightarrow> reachable max_size s'"

inductive reachable_resizing :: "cint \<Rightarrow> 'a system \<Rightarrow> bool" for max_size where
  resizing_init: "reachable_resizing max_size (initial max_size)"
| resizing_step: "reachable_resizing max_size s \<Longrightarrow> step s s' \<Longrightarrow> reachable_resizing max_size s'"
| resizing_resize: "reachable_resizing max_size s \<Longrightarrow> resize s s' \<Longrightarrow> reachable_resizing max_size s'"

lemma reachable_is_resizing: "reachable max_size s \<Longrightarrow> reachable_resizing max_size s"
  by (induction rule: reachable.induct) (auto intro: reachable_resizing.intros)

text \<open>The same when system calls may fail.\<close>

inductive reachable_failing :: "cint \<Rightarrow> 'a system \<Rightarrow> bool" for max_size where
  failing_init: "reachable_failing max_size (initial max_size)"
| failing_step: "reachable_failing max_size s \<Longrightarrow> sys_step s s' \<Longrightarrow> reachable_failing max_size s'"

inductive reachable_any :: "cint \<Rightarrow> 'a system \<Rightarrow> bool" for max_size where
  any_init: "reachable_any max_size (initial max_size)"
| any_step: "reachable_any max_size s \<Longrightarrow> sys_step s s' \<Longrightarrow> reachable_any max_size s'"
| any_resize: "reachable_any max_size s \<Longrightarrow> resize s s' \<Longrightarrow> reachable_any max_size s'"

lemma reachable_is_failing: "reachable max_size s \<Longrightarrow> reachable_failing max_size s"
  by (induction rule: reachable.induct) (auto intro: reachable_failing.intros step_sys_step)

lemma reachable_failing_is_any: "reachable_failing max_size s \<Longrightarrow> reachable_any max_size s"
  by (induction rule: reachable_failing.induct) (auto intro: reachable_any.intros)

lemma reachable_resizing_is_any: "reachable_resizing max_size s \<Longrightarrow> reachable_any max_size s"
  by (induction rule: reachable_resizing.induct) (auto intro: reachable_any.intros step_sys_step)

section \<open>Field equations\<close>

named_theorems sys_simps

lemma goto_fields [sys_simps, simp]:
  "sys_items (goto t op st s) = sys_items s" "sys_max (goto t op st s) = sys_max s"
  "sys_owner (goto t op st s) = sys_owner s" "sys_put (goto t op st s) = sys_put s"
  "sys_got (goto t op st s) = sys_got s"
  "sys_pc (goto t op st s) = (sys_pc s)(t := Running op st)"
  by (simp_all add: goto_def)

lemma wake_fields [sys_simps, simp]:
  "sys_items (wake V s) = sys_items s" "sys_max (wake V s) = sys_max s"
  "sys_owner (wake V s) = sys_owner s" "sys_put (wake V s) = sys_put s"
  "sys_got (wake V s) = sys_got s"
  "sys_pc (wake V s) = (\<lambda>u. if u \<in> V then wake_pc (sys_pc s u) else sys_pc s u)"
  by (simp_all add: wake_def)

lemma initial_fields [sys_simps, simp]:
  "sys_items (initial n) = []" "sys_max (initial n) = n" "sys_owner (initial n) = None"
  "sys_put (initial n) = []" "sys_got (initial n) = []" "sys_pc (initial n) t = Idle"
  by (simp_all add: initial_def)

section \<open>Invariants\<close>

text \<open>
  An invariant of the runs with a fixed size holds at the start and is kept by every step
  from a reachable state; an invariant of all runs is also kept by a resize.
\<close>

locale fixed_size_invariant =
  fixes max_size :: cint and I :: "'a system \<Rightarrow> bool"
  assumes init: "I (initial max_size)"
    and kept: "reachable max_size s \<Longrightarrow> I s \<Longrightarrow> step s s' \<Longrightarrow> I s'"

context fixed_size_invariant
begin

lemma holds: "reachable max_size s \<Longrightarrow> I s"
  by (induction rule: reachable.induct) (auto intro: init kept)

end

locale resizing_invariant =
  fixes max_size :: cint and I :: "'a system \<Rightarrow> bool"
  assumes init_resizing: "I (initial max_size)"
    and kept_resizing: "reachable_resizing max_size s \<Longrightarrow> I s \<Longrightarrow> step s s' \<Longrightarrow> I s'"
    and resized: "I s \<Longrightarrow> resize s s' \<Longrightarrow> I s'"

context resizing_invariant
begin

lemma holds_resizing: "reachable_resizing max_size s \<Longrightarrow> I s"
  by (induction rule: reachable_resizing.induct) (auto intro: init_resizing kept_resizing resized)

end

sublocale resizing_invariant \<subseteq> fixed_size_invariant
  by unfold_locales (auto intro: init_resizing kept_resizing reachable_is_resizing)

text \<open>Invariants that failing system calls keep as well.\<close>

locale failing_invariant =
  fixes max_size :: cint and I :: "'a system \<Rightarrow> bool"
  assumes init_failing: "I (initial max_size)"
    and kept_failing: "reachable_failing max_size s \<Longrightarrow> I s \<Longrightarrow> sys_step s s' \<Longrightarrow> I s'"

context failing_invariant
begin

lemma holds_failing: "reachable_failing max_size s \<Longrightarrow> I s"
  by (induction rule: reachable_failing.induct) (auto intro: init_failing kept_failing)

end

sublocale failing_invariant \<subseteq> fixed_size_invariant
  by unfold_locales (auto intro: init_failing kept_failing reachable_is_failing step_sys_step)

locale lasting_invariant =
  fixes max_size :: cint and I :: "'a system \<Rightarrow> bool"
  assumes init_any: "I (initial max_size)"
    and kept_any: "reachable_any max_size s \<Longrightarrow> I s \<Longrightarrow> sys_step s s' \<Longrightarrow> I s'"
    and resized_any: "I s \<Longrightarrow> resize s s' \<Longrightarrow> I s'"

context lasting_invariant
begin

lemma holds_any: "reachable_any max_size s \<Longrightarrow> I s"
  by (induction rule: reachable_any.induct) (auto intro: init_any kept_any resized_any)

end

sublocale lasting_invariant \<subseteq> resizing_invariant
  by unfold_locales (auto intro: init_any kept_any resized_any reachable_resizing_is_any step_sys_step)

sublocale lasting_invariant \<subseteq> failing_invariant
  by unfold_locales (auto intro: init_any kept_any reachable_failing_is_any)

subsection \<open>Mutual exclusion\<close>

fun critical :: "'a pc \<Rightarrow> bool" where
  "critical Idle = False"
| "critical (Running op st) =
     (case st of Lock \<Rightarrow> False | Waiting \<Rightarrow> False | Woken _ \<Rightarrow> False | _ \<Rightarrow> True)"

definition inv_owner :: "'a system \<Rightarrow> bool" where
  "inv_owner s \<longleftrightarrow> (\<forall>t. critical (sys_pc s t) \<longleftrightarrow> sys_owner s = Some t)"

lemma critical_wake [simp]: "critical (wake_pc p) = critical p"
  by (cases p rule: wake_pc.cases) auto

text \<open>One thread enters, leaves or stays where it is, the others do not change sides.\<close>

lemma inv_owner_move:
  assumes "inv_owner s" and others: "\<And>u. u \<noteq> t \<Longrightarrow> critical (sys_pc s' u) = critical (sys_pc s u)"
    and "if critical (sys_pc s t) then sys_owner s' = (if critical (sys_pc s' t) then sys_owner s else None)
      else if critical (sys_pc s' t) then sys_owner s = None \<and> sys_owner s' = Some t
      else sys_owner s' = sys_owner s"
  shows "inv_owner s'"
  unfolding inv_owner_def
proof
  fix u
  have "critical (sys_pc s u) = (sys_owner s = Some u)" "critical (sys_pc s t) = (sys_owner s = Some t)"
    using assms(1) by (simp_all add: inv_owner_def)
  then show "critical (sys_pc s' u) = (sys_owner s' = Some u)"
    using assms(3) others [of u] by (cases "u = t") (auto split: if_splits)
qed

lemma inv_owner_step: "step s s' \<Longrightarrow> inv_owner s \<Longrightarrow> inv_owner s'"
  by (induction rule: step.induct) (erule_tac t = t in inv_owner_move; simp)+

lemma inv_owner_sys_step: "sys_step s s' \<Longrightarrow> inv_owner s \<Longrightarrow> inv_owner s'"
  unfolding sys_step_def
proof (elim disjE)
  show "fault s s' \<Longrightarrow> inv_owner s \<Longrightarrow> inv_owner s'"
    by (induction rule: fault.induct) (erule_tac t = t in inv_owner_move; simp)+
qed (rule inv_owner_step)

inductive_cases resizeE: "resize s s'"

lemma resize_fields:
  assumes "resize s s'"
  shows "sys_items s' = sys_items s" "sys_owner s' = sys_owner s" "sys_pc s' = sys_pc s"
    "sys_put s' = sys_put s" "sys_got s' = sys_got s"
  using assms by (auto elim: resizeE)

lemma resize_inv_owner: "inv_owner s \<Longrightarrow> resize s s' \<Longrightarrow> inv_owner s'"
  by (simp add: inv_owner_def resize_fields)

interpretation owner: lasting_invariant n "inv_owner :: 'a system \<Rightarrow> bool" for n
proof unfold_locales
  show "inv_owner (initial n :: 'a system)" by (simp add: inv_owner_def)
qed (blast intro: inv_owner_sys_step resize_inv_owner)+

subsection \<open>First in, first out\<close>

definition inv_fifo :: "'a system \<Rightarrow> bool" where
  "inv_fifo s \<longleftrightarrow> sys_put s = sys_got s @ sys_items s"

text \<open>A failing call leaves the list, the history and the size alone.\<close>

lemma fault_fields:
  assumes "fault s s'"
  shows "sys_items s' = sys_items s" "sys_max s' = sys_max s" "sys_put s' = sys_put s" "sys_got s' = sys_got s"
    "sys_pc s' t = Running op Commit \<Longrightarrow> sys_pc s t = Running op Commit"
  using assms by (induction rule: fault.induct) (auto split: if_splits)

lemma inv_fifo_step: "step s s' \<Longrightarrow> inv_fifo s \<Longrightarrow> inv_fifo s'"
  by (induction rule: step.induct) (auto simp: inv_fifo_def)

lemma inv_fifo_sys_step: "sys_step s s' \<Longrightarrow> inv_fifo s \<Longrightarrow> inv_fifo s'"
  by (auto simp: sys_step_def inv_fifo_def fault_fields dest: inv_fifo_step)

lemma resize_inv_fifo: "inv_fifo s \<Longrightarrow> resize s s' \<Longrightarrow> inv_fifo s'"
  by (simp add: inv_fifo_def resize_fields)

interpretation fifo: lasting_invariant n "inv_fifo :: 'a system \<Rightarrow> bool" for n
proof unfold_locales
  show "inv_fifo (initial n :: 'a system)" by (simp add: inv_fifo_def)
qed (blast intro: inv_fifo_sys_step resize_inv_fifo)+

subsection \<open>A reader about to take an item finds one\<close>

definition inv_take :: "'a system \<Rightarrow> bool" where
  "inv_take s \<longleftrightarrow> (\<forall>t b. sys_pc s t = Running (Get b) Commit \<longrightarrow> sys_items s \<noteq> [])"

text \<open>Two threads in the critical section are one.\<close>

lemma critical_unique: "inv_owner s \<Longrightarrow> critical (sys_pc s t) \<Longrightarrow> critical (sys_pc s u) \<Longrightarrow> t = u"
  by (auto simp: inv_owner_def)

lemma wake_pc_eq [simp]:
  "st \<noteq> Waiting \<Longrightarrow> st \<noteq> Woken False \<Longrightarrow> wake_pc p = Running op st \<longleftrightarrow> p = Running op st"
  by (cases p rule: wake_pc.cases) auto

lemma inv_take_step: "step s s' \<Longrightarrow> inv_owner s \<Longrightarrow> inv_take s \<Longrightarrow> inv_take s'"
proof (induction rule: step.induct)
  case (take s t b x rest)
  then have "sys_pc s u \<noteq> Running (Get c) Commit" if "u \<noteq> t" for u c
    using critical_unique [of s t u] that by auto
  then show ?case by (auto simp: inv_take_def)
qed (auto simp: inv_take_def split: if_splits)

lemma inv_take_sys_step: "sys_step s s' \<Longrightarrow> inv_owner s \<Longrightarrow> inv_take s \<Longrightarrow> inv_take s'"
  unfolding sys_step_def
proof (elim disjE)
  show "fault s s' \<Longrightarrow> inv_take s \<Longrightarrow> inv_take s'"
    by (auto simp: inv_take_def fault_fields(1) dest: fault_fields(5))
qed (rule inv_take_step)

lemma resize_inv_take: "inv_take s \<Longrightarrow> resize s s' \<Longrightarrow> inv_take s'"
  by (simp add: inv_take_def resize_fields)

interpretation nonempty: lasting_invariant n "inv_take :: 'a system \<Rightarrow> bool" for n
proof unfold_locales
  show "inv_take (initial n :: 'a system)" by (simp add: inv_take_def)
qed (blast intro: inv_take_sys_step owner.holds_any resize_inv_take)+

subsection \<open>Only calls with a waiting time give up\<close>

fun late :: "stage \<Rightarrow> bool" where
  "late (Test timed_out) = timed_out"
| "late (Woken timed_out) = timed_out"
| "late Fail = True"
| "late (Unlock r) = (r \<noteq> Returned)"
| "late _ = False"

fun in_time :: "'a pc \<Rightarrow> bool" where
  "in_time Idle = True"
| "in_time (Running op st) = (late st \<longrightarrow> timed op)"

definition inv_timed :: "'a system \<Rightarrow> bool" where
  "inv_timed s \<longleftrightarrow> (\<forall>t. in_time (sys_pc s t))"

lemma in_time_wake [simp]: "in_time (wake_pc p) = in_time p"
  by (cases p rule: wake_pc.cases) auto

lemma inv_timed_step: "step s s' \<Longrightarrow> inv_timed s \<Longrightarrow> inv_timed s'"
  by (induction rule: step.induct) (unfold inv_timed_def, (frule_tac x = t in spec, simp)+)

lemma resize_inv_timed: "inv_timed s \<Longrightarrow> resize s s' \<Longrightarrow> inv_timed s'"
  by (simp add: inv_timed_def resize_fields)

interpretation timing: resizing_invariant n "inv_timed :: 'a system \<Rightarrow> bool" for n
proof unfold_locales
  show "inv_timed (initial n :: 'a system)" by (simp add: inv_timed_def)
qed (blast intro: inv_timed_step resize_inv_timed)+

subsection \<open>The size limit\<close>

text \<open>The limit the comparison in the predicate works with.\<close>

definition capacity :: "cint \<Rightarrow> nat" where
  "capacity max_size = unat (int_to_size_t max_size)"

lemma has_room_iff: "length xs < 2 ^ 64 \<Longrightarrow> has_room xs n \<longleftrightarrow> length xs < capacity n"
  by (simp add: has_room_def list_size_def capacity_def word_less_nat_alt unat_of_nat)

lemma capacity_bound: "capacity n < 2 ^ 64"
proof -
  have "unat (int_to_size_t n) < 2 ^ LENGTH(64)" by (rule unsigned_less)
  then show ?thesis by (simp add: capacity_def)
qed

lemma has_room_capacity: "length xs \<le> capacity n \<Longrightarrow> has_room xs n \<longleftrightarrow> length xs < capacity n"
  using has_room_iff capacity_bound [of n] by (metis le_less_trans)

definition inv_capacity :: "cint \<Rightarrow> 'a system \<Rightarrow> bool" where
  "inv_capacity n s \<longleftrightarrow> sys_max s = n \<and> length (sys_items s) \<le> capacity n
     \<and> (\<forall>t x b. sys_pc s t = Running (Put x b) Commit \<longrightarrow> length (sys_items s) < capacity n)"

lemma inv_capacity_step: "step s s' \<Longrightarrow> inv_owner s \<Longrightarrow> inv_capacity n s \<Longrightarrow> inv_capacity n s'"
proof (induction rule: step.induct)
  case (push s t x b)
  then have "sys_pc s u \<noteq> Running (Put y c) Commit" if "u \<noteq> t" for u y c
    using critical_unique [of s t u] that by auto
  with push show ?case by (auto simp: inv_capacity_def less_eq_Suc_le)
next
  case (take s t b x rest)
  then show ?case by (auto simp: inv_capacity_def)
next
  case (test_true s t op timed_out)
  then show ?case by (cases op) (auto simp: inv_capacity_def has_room_capacity)
qed (auto simp: inv_capacity_def split: if_splits)

lemma inv_capacity_sys_step: "sys_step s s' \<Longrightarrow> inv_owner s \<Longrightarrow> inv_capacity n s \<Longrightarrow> inv_capacity n s'"
  unfolding sys_step_def
proof (elim disjE)
  show "fault s s' \<Longrightarrow> inv_capacity n s \<Longrightarrow> inv_capacity n s'"
    by (auto simp: inv_capacity_def fault_fields(1,2) dest: fault_fields(5))
qed (rule inv_capacity_step)

interpretation bounded: failing_invariant n "inv_capacity n :: 'a system \<Rightarrow> bool" for n
proof unfold_locales
  show "inv_capacity n (initial n :: 'a system)" by (simp add: inv_capacity_def)
qed (blast intro: inv_capacity_sys_step owner.holds_failing)

subsection \<open>No wake-up is lost\<close>

text \<open>
  \<open>active\<close>: a thread of the given kind that will look at the list again before it can block,
  or one of the other kind that is about to notify.  \<open>on_offer\<close>: what a waiting thread of the
  kind waits for, items or room.  As long as somebody waits, there are at least as many active
  threads as there is on offer.
\<close>

fun active :: "bool \<Rightarrow> 'a pc \<Rightarrow> bool" where
  "active getters Idle = False"
| "active getters (Running op st) =
     (case st of
        Woken _ \<Rightarrow> is_get op = getters
      | Test _ \<Rightarrow> is_get op = getters
      | Commit \<Rightarrow> is_get op = getters
      | Notify \<Rightarrow> is_get op \<noteq> getters
      | _ \<Rightarrow> False)"

definition actives :: "bool \<Rightarrow> 'a system \<Rightarrow> nat" where
  "actives getters s = how_many (\<lambda>t. active getters (sys_pc s t))"

definition on_offer :: "bool \<Rightarrow> cint \<Rightarrow> 'a system \<Rightarrow> nat" where
  "on_offer getters n s =
     (if getters then length (sys_items s) else capacity n - length (sys_items s))"

definition somebody_waits :: "bool \<Rightarrow> 'a system \<Rightarrow> bool" where
  "somebody_waits getters s \<longleftrightarrow> (\<exists>u. waiting_for getters s u)"

definition inv_balance :: "bool \<Rightarrow> cint \<Rightarrow> 'a system \<Rightarrow> bool" where
  "inv_balance getters n s \<longleftrightarrow> somebody_waits getters s \<longrightarrow> on_offer getters n s \<le> actives getters s"

lemma actives_goto:
  "actives g (goto t op st s) + (if active g (sys_pc s t) then 1 else 0)
     = actives g s + (if active g (Running op st) then 1 else 0)"
  unfolding actives_def goto_fields by (rule how_many_upd)

lemma actives_idle:
  "active g (sys_pc s t) = False \<Longrightarrow>
     actives g (s\<lparr>sys_owner := o', sys_pc := (sys_pc s)(t := Idle)\<rparr>) = actives g s"
  using how_many_upd [of "active g" "sys_pc s" t Idle] by (simp add: actives_def)

lemma actives_cong: "sys_pc s' = sys_pc s \<Longrightarrow> actives g s' = actives g s"
  by (simp add: actives_def)

lemma waiting_for_goto:
  "waiting_for g (goto t op st s) u \<longleftrightarrow>
     (if u = t then st = Waiting \<and> is_get op = g else waiting_for g s u)"
  by (cases st) (auto simp: waiting_for_def)

lemma somebody_waits_goto:
  "somebody_waits g (goto t op st s) \<Longrightarrow> st = Waiting \<and> is_get op = g \<or> somebody_waits g s"
  by (auto simp: somebody_waits_def waiting_for_goto split: if_splits)

lemma active_wake: "active g p \<Longrightarrow> active g (wake_pc p)"
  by (cases p rule: wake_pc.cases) auto

lemma active_woken: "waiting_for g s u \<Longrightarrow> \<not> active g (sys_pc s u) \<and> active g (wake_pc (sys_pc s u))"
  by (auto simp: waiting_for_def split: pc.splits stage.splits)

lemma actives_wake: "actives g s \<le> actives g (wake V s)"
  unfolding actives_def by (rule how_many_mono) (simp add: active_wake)

lemma actives_wake_Suc:
  assumes "u \<in> V" and "waiting_for g s u"
  shows "actives g s < actives g (wake V s)"
  unfolding actives_def
  using assms active_woken [OF assms(2)]
  by (intro how_many_strict [where t = u]) (simp_all add: active_wake)

text \<open>A move that neither changes the list nor ends anybody's activity while there is something on offer.\<close>

lemma balance_goto:
  assumes bal: "inv_balance g n s" and same: "sys_items s1 = sys_items s" "sys_pc s1 = sys_pc s"
    and waits: "st = Waiting \<and> is_get op = g \<longrightarrow> on_offer g n s = 0"
    and ends: "active g (sys_pc s t) \<longrightarrow> active g (Running op st) \<or> on_offer g n s = 0"
  shows "inv_balance g n (goto t op st s1)"
  unfolding inv_balance_def
proof
  have offer: "on_offer g n (goto t op st s1) = on_offer g n s"
    by (simp add: on_offer_def same)
  have acts: "actives g s1 = actives g s" using same(2) by (rule actives_cong)
  have waits1: "somebody_waits g s1 = somebody_waits g s"
    by (simp add: somebody_waits_def waiting_for_def same)
  assume "somebody_waits g (goto t op st s1)"
  then consider "st = Waiting \<and> is_get op = g" | "somebody_waits g s"
    using somebody_waits_goto waits1 by blast
  then show "on_offer g n (goto t op st s1) \<le> actives g (goto t op st s1)"
  proof cases
    case 1
    with waits offer show ?thesis by simp
  next
    case 2
    with bal have "on_offer g n s \<le> actives g s" by (simp add: inv_balance_def)
    with ends offer acts show ?thesis
      using actives_goto [of g t op st s1] same(2) by (auto split: if_splits)
  qed
qed

lemma balance_list_change:
  assumes bal: "inv_balance g n s" and pc: "sys_pc s1 = sys_pc s"
    and "sys_pc s t = Running op Commit"
    and offer: "if is_get op = g then Suc (on_offer g n s1) = on_offer g n s
      else on_offer g n s1 \<le> Suc (on_offer g n s)"
  shows "inv_balance g n (goto t op Notify s1)"
  unfolding inv_balance_def
proof
  assume "somebody_waits g (goto t op Notify s1)"
  then have "somebody_waits g s1" by (auto dest: somebody_waits_goto)
  then have "somebody_waits g s" by (simp add: somebody_waits_def waiting_for_def pc)
  with bal have "on_offer g n s \<le> actives g s" by (simp add: inv_balance_def)
  moreover have "actives g s1 = actives g s" using pc by (rule actives_cong)
  moreover have "on_offer g n (goto t op Notify s1) = on_offer g n s1"
    by (simp add: on_offer_def)
  ultimately show "on_offer g n (goto t op Notify s1) \<le> actives g (goto t op Notify s1)"
    using actives_goto [of g t op Notify s1] assms(3) offer pc by (simp split: if_splits)
qed

lemma waiting_for_wake:
  "waiting_for g (wake V s) u \<longleftrightarrow> waiting_for g s u \<and> u \<notin> V"
  by (auto simp: waiting_for_def split: pc.splits stage.splits elim!: wake_pc.elims)

lemma balance_notify:
  assumes bal: "inv_balance g n s" and st: "st = Notify \<or> st = Fail"
    and pc: "sys_pc s t = Running op st"
    and woken: "is_get op \<noteq> g \<Longrightarrow> somebody_waits g s \<Longrightarrow> \<exists>u \<in> V. waiting_for g s u"
  shows "inv_balance g n (goto t op (Unlock r) (wake V s))"
  unfolding inv_balance_def
proof
  assume "somebody_waits g (goto t op (Unlock r) (wake V s))"
  then have "somebody_waits g (wake V s)" by (auto dest: somebody_waits_goto)
  then have waits: "somebody_waits g s" by (auto simp: somebody_waits_def waiting_for_wake)
  have same: "on_offer g n (goto t op (Unlock r) (wake V s)) = on_offer g n s"
    by (simp add: on_offer_def)
  from waits bal have "on_offer g n s \<le> actives g s" by (simp add: inv_balance_def)
  also have "actives g s + (if active g (sys_pc s t) then 1 else 0) \<le> actives g (wake V s)"
  proof (cases "is_get op = g")
    case True
    with st pc actives_wake show ?thesis by auto
  next
    case False
    with waits woken obtain u where "u \<in> V" "waiting_for g s u" by blast
    with st pc show ?thesis using actives_wake_Suc [of u V g s] by auto
  qed
  then have "actives g s \<le> actives g (goto t op (Unlock r) (wake V s))"
    using actives_goto [of g t op "Unlock r" "wake V s"] pc st
    by (auto split: if_splits)
  finally show "on_offer g n (goto t op (Unlock r) (wake V s))
    \<le> actives g (goto t op (Unlock r) (wake V s))"
    unfolding same .
qed

text \<open>A call whose test fails finds nothing on offer.\<close>

lemma not_ready_no_offer:
  assumes "\<not> ready op (sys_items s) (sys_max s)" and "is_get op = g"
    and "\<not> g \<Longrightarrow> inv_capacity n s"
  shows "on_offer g n s = 0"
  using assms by (cases op) (auto simp: on_offer_def inv_capacity_def has_room_capacity)

lemma inv_balance_step:
  assumes "step s s'" and bal: "inv_balance g n s" and cap: "\<not> g \<Longrightarrow> inv_capacity n s"
  shows "inv_balance g n s'"
  using assms(1)
proof cases
  case (wait t op)
  note none = not_ready_no_offer [OF wait(3) _ cap]
  show ?thesis unfolding wait(1) by (rule balance_goto [OF bal]) (use wait none in auto)
next
  case (refused t op)
  note none = not_ready_no_offer [OF refused(3) _ cap]
  show ?thesis unfolding refused(1) by (rule balance_goto [OF bal]) (use refused none in auto)
next
  case (give_up t op)
  note none = not_ready_no_offer [OF give_up(3) _ cap]
  show ?thesis unfolding give_up(1) by (rule balance_goto [OF bal]) (use give_up none in auto)
next
  case (take t b x rest)
  then show ?thesis unfolding take(1) using cap
    by (intro balance_list_change [OF bal]) (auto simp: on_offer_def inv_capacity_def)
next
  case (push t x b)
  then show ?thesis unfolding push(1) using cap
    by (intro balance_list_change [OF bal]) (auto simp: on_offer_def inv_capacity_def)
next
  case (notify_one t op V)
  then show ?thesis unfolding notify_one(1)
    by (intro balance_notify [OF bal]) (auto simp: somebody_waits_def)
next
  case (notify_all t op)
  then show ?thesis unfolding notify_all(1)
    by (intro balance_notify [OF bal]) (auto simp: somebody_waits_def)
next
  case (unlock t op r)
  then have "actives g s' = actives g s" by (simp add: actives_idle)
  moreover from unlock have "somebody_waits g s' \<Longrightarrow> somebody_waits g s"
    by (auto simp: somebody_waits_def waiting_for_def split: if_splits)
  moreover from unlock have "on_offer g n s' = on_offer g n s" by (simp add: on_offer_def)
  ultimately show ?thesis using bal by (simp add: inv_balance_def)
next
  case (start t op)
  show ?thesis unfolding start(1) by (rule balance_goto [OF bal]) (use start in auto)
next
  case (lock t op)
  show ?thesis unfolding lock(1) by (rule balance_goto [OF bal]) (use lock in auto)
next
  case (test_true t op timed_out)
  show ?thesis unfolding test_true(1) by (rule balance_goto [OF bal]) (use test_true in auto)
next
  case (spurious t op)
  show ?thesis unfolding spurious(1) by (rule balance_goto [OF bal]) (use spurious in auto)
next
  case (time_out t op)
  show ?thesis unfolding time_out(1) by (rule balance_goto [OF bal]) (use time_out in auto)
next
  case (relock t op timed_out)
  show ?thesis unfolding relock(1) by (rule balance_goto [OF bal]) (use relock in auto)
qed

lemma inv_balance_initial: "inv_balance g n (initial n)"
  by (simp add: inv_balance_def somebody_waits_def waiting_for_def)

interpretation balance: fixed_size_invariant n "inv_balance g n :: 'a system \<Rightarrow> bool" for g n
proof unfold_locales
qed (blast intro: inv_balance_initial inv_balance_step bounded.holds)+

text \<open>For the readers the size limit plays no role: the balance survives \<open>set_max_size\<close>.\<close>

lemma resize_inv_balance: "inv_balance True n s \<Longrightarrow> resize s s' \<Longrightarrow> inv_balance True n s'"
  by (simp add: inv_balance_def on_offer_def somebody_waits_def waiting_for_def actives_def
      resize_fields)

interpretation readers_balance: resizing_invariant n "inv_balance True n :: 'a system \<Rightarrow> bool" for n
proof unfold_locales
qed (blast intro: inv_balance_initial inv_balance_step resize_inv_balance)+

end
