(* ===== verification/Sync_Queue_Progress.thy ===== *)
theory Sync_Queue_Progress
  imports Sync_Queue_Steps
begin

text \<open>
  What the invariants of the queue used by many threads give: some thread can always move,
  the moves come to an end, and when they do nobody waits for something that is there.
\<close>

section \<open>Moves\<close>

text \<open>
  A thread moves when it is in a call and not blocked in a wait.  A quiet step is a step of
  such a thread: no new call, no wake-up without a signal, no time-out.
\<close>

definition moving :: "'a system \<Rightarrow> pthread_t \<Rightarrow> bool" where
  "moving s t \<longleftrightarrow> (case sys_pc s t of Idle \<Rightarrow> False | Running op st \<Rightarrow> st \<noteq> Waiting)"

definition quiet_step :: "'a system \<Rightarrow> 'a system \<Rightarrow> bool" where
  "quiet_step s s' \<longleftrightarrow> step s s' \<and> (\<exists>t. moving s t \<and> sys_pc s' t \<noteq> sys_pc s t)"

lemma quiet_stepI:
  assumes "step s s'" and "sys_pc s t = Running op st" and "st \<noteq> Waiting"
    and "sys_pc s' t \<noteq> Running op st"
  shows "\<exists>s'. quiet_step s s'"
  using assms by (intro exI [of _ s'] conjI exI [of _ t] quiet_step_def [THEN iffD2])
    (simp_all add: moving_def)

section \<open>Somebody can move\<close>

lemma owner_moves:
  assumes take: "inv_take s" and pc: "sys_pc s t = Running op st" and crit: "critical (Running op st)"
  shows "\<exists>s'. quiet_step s s'"
proof (cases st)
  case (Test timed_out)
  show ?thesis
  proof (cases "ready op (sys_items s) (sys_max s)")
    case True
    with pc Test show ?thesis
      by (intro quiet_stepI [OF test_true [of s t op timed_out] pc]) auto
  next
    case False
    show ?thesis
    proof (cases timed_out)
      case True
      with False pc Test show ?thesis by (intro quiet_stepI [OF give_up [of s t op] pc]) auto
    next
      case no: False
      with False pc Test show ?thesis by (intro quiet_stepI [OF wait [of s t op] pc]) auto
    qed
  qed
next
  case Commit
  show ?thesis
  proof (cases op)
    case (Get b)
    with take pc Commit obtain x rest where "sys_items s = x # rest"
      by (auto simp: inv_take_def neq_Nil_conv)
    with pc Commit Get show ?thesis by (intro quiet_stepI [OF step.take [of s t b x rest] pc]) auto
  next
    case (Put x b)
    with pc Commit show ?thesis by (intro quiet_stepI [OF push [of s t x b] pc]) auto
  qed
next
  case Notify
  with pc show ?thesis
    by (intro quiet_stepI [OF notify_one [of s t op "{u. waiting_for (\<not> is_get op) s u}"] pc]) auto
next
  case Fail
  with pc show ?thesis by (intro quiet_stepI [OF notify_all [of s t op] pc]) auto
next
  case (Unlock r)
  with pc show ?thesis by (intro quiet_stepI [OF unlock [of s t op r] pc]) auto
qed (use crit in auto)

lemma somebody_moves:
  assumes own: "inv_owner s" and take: "inv_take s" and "moving s t"
  shows "\<exists>s'. quiet_step s s'"
proof (cases "sys_owner s")
  case None
  with own have "\<not> critical (sys_pc s t)" by (simp add: inv_owner_def)
  with assms(3) obtain op st where pc: "sys_pc s t = Running op st"
    and st: "st = Lock \<or> (\<exists>timed_out. st = Woken timed_out)"
    by (auto simp: moving_def split: pc.splits stage.splits)
  from st None pc show ?thesis
    by (auto intro: quiet_stepI [OF lock [of s t op] pc] quiet_stepI [OF relock [of s t op] pc])
next
  case (Some u)
  with own have "critical (sys_pc s u)" by (simp add: inv_owner_def)
  with take show ?thesis by (cases "sys_pc s u") (auto intro: owner_moves)
qed

section \<open>The moves come to an end\<close>

text \<open>
  A notification may send every other thread round its loop once more: it weighs more than
  all of these rounds together.
\<close>

definition rounds :: nat where
  "rounds = 2 * CARD(pthread_t)"

fun weight :: "'a pc \<Rightarrow> nat" where
  "weight Idle = 0"
| "weight (Running op st) =
     (case st of
        Unlock _ \<Rightarrow> 1
      | Notify \<Rightarrow> rounds + 2
      | Fail \<Rightarrow> rounds + 2
      | Commit \<Rightarrow> rounds + 3
      | Waiting \<Rightarrow> rounds + 4
      | Test _ \<Rightarrow> rounds + 5
      | Woken _ \<Rightarrow> rounds + 6
      | Lock \<Rightarrow> rounds + 7)"

definition total_weight :: "'a system \<Rightarrow> nat" where
  "total_weight s = (\<Sum>t\<in>UNIV. weight (sys_pc s t))"

lemma total_weight_goto:
  "total_weight (goto t op st s) + weight (sys_pc s t) = total_weight s + weight (Running op st)"
  unfolding total_weight_def goto_fields by (rule sum_upd)

lemma total_weight_unlock:
  "total_weight (s\<lparr>sys_owner := o', sys_pc := (sys_pc s)(t := Idle)\<rparr>) + weight (sys_pc s t)
     = total_weight s"
  using sum_upd [of weight "sys_pc s" t Idle] by (simp add: total_weight_def)

lemma total_weight_wake: "total_weight (wake V s) \<le> total_weight s + rounds"
proof -
  have "weight (wake_pc p) \<le> weight p + 2" for p :: "'a pc"
    by (cases p rule: wake_pc.cases) auto
  then have "total_weight (wake V s) \<le> (\<Sum>t\<in>UNIV. weight (sys_pc s t) + 2)"
    unfolding total_weight_def by (intro sum_mono) simp
  also have "\<dots> = total_weight s + rounds"
    unfolding total_weight_def rounds_def sum.distrib by simp
  finally show ?thesis .
qed

lemma total_weight_cong: "sys_pc s' = sys_pc s \<Longrightarrow> total_weight s' = total_weight s"
  by (simp add: total_weight_def)

lemma goto_weight:
  assumes "sys_pc s1 = sys_pc s" and "weight (Running op st) < weight (sys_pc s t)"
  shows "total_weight (goto t op st s1) < total_weight s"
  using assms total_weight_goto [of t op st s1] total_weight_cong [OF assms(1)] by simp

lemma notification_weight:
  assumes "sys_pc s t = Running op st" and "st = Notify \<or> st = Fail"
  shows "total_weight (goto t op (Unlock r) (wake V s)) < total_weight s"
proof -
  have "sys_pc (wake V s) t = Running op st" using assms by auto
  then show ?thesis
    using total_weight_goto [of t op "Unlock r" "wake V s"] total_weight_wake [of V s] assms(2)
    by auto
qed

lemma quiet_step_weight:
  assumes "quiet_step s s'"
  shows "total_weight s' < total_weight s"
proof -
  from assms obtain u where "step s s'" and u: "moving s u" "sys_pc s' u \<noteq> sys_pc s u"
    by (auto simp: quiet_step_def)
  from this(1) show ?thesis
  proof cases
    case (start t op)
    with u show ?thesis by (auto simp: moving_def split: if_splits)
  next
    case (spurious t op)
    with u show ?thesis by (auto simp: moving_def split: if_splits)
  next
    case (time_out t op)
    with u show ?thesis by (auto simp: moving_def split: if_splits)
  next
    case (notify_one t op V)
    then show ?thesis by (simp add: notification_weight)
  next
    case (notify_all t op)
    then show ?thesis by (simp add: notification_weight)
  next
    case (unlock t op r)
    then show ?thesis using total_weight_unlock [of s t None] by simp
  qed (auto intro: goto_weight)
qed

section \<open>What a settled system looks like\<close>

text \<open>Every thread is out of the queue, or blocked in a wait for something that is not there.\<close>

definition settled :: "cint \<Rightarrow> 'a system \<Rightarrow> bool" where
  "settled n s \<longleftrightarrow> (\<forall>t. case sys_pc s t of
      Idle \<Rightarrow> True
    | Running op st \<Rightarrow> st = Waiting
        \<and> (if is_get op then sys_items s = [] else length (sys_items s) = capacity n))"

lemma nobody_moves_settled:
  assumes r: "reachable n s" and "\<And>t. \<not> moving s t"
  shows "settled n s"
proof -
  have idle: "actives g s = 0" for g
  proof -
    have "\<not> active g (sys_pc s t)" for t
      using assms(2) [of t] by (auto simp: moving_def split: pc.splits)
    then show ?thesis by (simp add: actives_def how_many_eq_0)
  qed
  have cap: "length (sys_items s) \<le> capacity n"
    using bounded.holds [OF r] by (simp add: inv_capacity_def)
  have none: "on_offer g n s = 0" if "waiting_for g s t" for g t
  proof -
    have "somebody_waits g s" using that by (auto simp: somebody_waits_def)
    then show ?thesis using balance.holds [OF r, of g] idle [of g] by (simp add: inv_balance_def)
  qed
  show ?thesis
    unfolding settled_def
  proof
    fix t
    show "case sys_pc s t of Idle \<Rightarrow> True
      | Running op st \<Rightarrow> st = Waiting
          \<and> (if is_get op then sys_items s = [] else length (sys_items s) = capacity n)"
    proof (cases "sys_pc s t")
      case (Running op st)
      with assms(2) [of t] have st: "st = Waiting" by (simp add: moving_def)
      with Running have "waiting_for (is_get op) s t" by (simp add: waiting_for_def)
      from none [OF this] st Running cap show ?thesis by (auto simp: on_offer_def split: if_splits)
    qed simp
  qed
qed

lemma no_quiet_step_settled:
  assumes r: "reachable n s" and "\<nexists>s'. quiet_step s s'"
  shows "settled n s"
  using r
proof (rule nobody_moves_settled)
  have "inv_owner s" "inv_take s" using owner.holds [OF r] nonempty.holds [OF r] .
  then show "\<not> moving s t" for t using assms(2) somebody_moves by blast
qed

lemma reachable_quiet: "quiet_step\<^sup>*\<^sup>* s s' \<Longrightarrow> reachable n s \<Longrightarrow> reachable n s'"
  by (induction rule: rtranclp_induct) (auto simp: quiet_step_def intro: reach_step)

lemma quiet_run_ends: "\<exists>s'. quiet_step\<^sup>*\<^sup>* s s' \<and> (\<nexists>s''. quiet_step s' s'')"
proof (induction "total_weight s" arbitrary: s rule: less_induct)
  case less
  show ?case
  proof (cases "\<exists>s1. quiet_step s s1")
    case True
    then obtain s1 where "quiet_step s s1" by blast
    with less [OF quiet_step_weight [OF this]] show ?thesis by (meson converse_rtranclp_into_rtranclp)
  qed auto
qed

section \<open>Two threads, step by step\<close>

text \<open>
  A concrete run with room for one item: thread 1 puts 7, thread 2 then wants to put 8 and
  waits.  \<open>one_in\<close> is the state in the middle, \<open>one_waits\<close> the state at the end.
\<close>

definition one_in :: "nat system" where
  "one_in = \<lparr>sys_items = [7], sys_max = 1, sys_owner = Some 1,
     sys_pc = (\<lambda>_. Idle)(1 := Running (Put 7 False) Notify), sys_put = [7], sys_got = []\<rparr>"

definition before_push :: "nat system" where
  "before_push = \<lparr>sys_items = [], sys_max = 1, sys_owner = Some 1,
     sys_pc = (\<lambda>_. Idle)(1 := Running (Put 7 False) Commit), sys_put = [], sys_got = []\<rparr>"

definition one_waits :: "nat system" where
  "one_waits = \<lparr>sys_items = [7], sys_max = 1, sys_owner = None,
     sys_pc = (\<lambda>_. Idle)(2 := Running (Put 8 False) Waiting), sys_put = [7], sys_got = []\<rparr>"

lemma room_for_one: "has_room xs 1 \<longleftrightarrow> xs = []" if "length xs \<le> 1"
  using that by (cases xs) (simp_all add: has_room_def list_size_def int_to_size_t_def)

lemma reachable_before_push: "reachable 1 before_push"
proof -
  let ?op = "Put (7 :: nat) False"
  define s1 where "s1 = goto 1 ?op Lock (initial 1)"
  define s2 where "s2 = goto 1 ?op (Test False) (s1\<lparr>sys_owner := Some 1\<rparr>)"
  have "reachable 1 s1" unfolding s1_def by (intro reach_step [OF reach_init] start) simp
  moreover have "step s1 s2" unfolding s2_def by (rule lock) (simp_all add: s1_def)
  moreover have "step s2 (goto 1 ?op Commit s2)"
    by (rule test_true [where timed_out = False]) (simp_all add: s2_def s1_def room_for_one)
  moreover have "goto 1 ?op Commit s2 = before_push"
    by (simp add: s2_def s1_def before_push_def goto_def initial_def)
  ultimately show ?thesis by (metis reach_step)
qed

lemma step_push: "step before_push one_in"
proof -
  have "step before_push (goto 1 (Put 7 False) Notify (before_push
      \<lparr>sys_items := sys_items before_push @ [7], sys_put := sys_put before_push @ [7]\<rparr>))"
    by (rule push) (simp add: before_push_def)
  also have "goto 1 (Put 7 False) Notify (before_push
      \<lparr>sys_items := sys_items before_push @ [7], sys_put := sys_put before_push @ [7]\<rparr>) = one_in"
    by (simp add: before_push_def one_in_def goto_def)
  finally show ?thesis .
qed

lemma reachable_one_in: "reachable 1 one_in"
  by (rule reach_step [OF reachable_before_push step_push])

lemma reachable_one_waits: "reachable 1 one_waits"
proof -
  let ?op = "Put (8 :: nat) False"
  define s5 where "s5 = goto 1 (Put (7 :: nat) False) (Unlock Returned) (wake {} one_in)"
  define s6 where "s6 = s5\<lparr>sys_owner := None, sys_pc := (sys_pc s5)(1 := Idle)\<rparr>"
  define s7 where "s7 = goto 2 ?op Lock s6"
  define s8 where "s8 = goto 2 ?op (Test False) (s7\<lparr>sys_owner := Some 2\<rparr>)"
  have "step one_in s5" unfolding s5_def
    by (rule notify_one) (simp_all add: one_in_def waiting_for_def)
  moreover have "step s5 s6" unfolding s6_def by (rule unlock) (simp add: s5_def)
  moreover have "step s6 s7" unfolding s7_def by (rule start) (simp add: s6_def s5_def one_in_def)
  moreover have "step s7 s8" unfolding s8_def by (rule lock) (simp_all add: s7_def s6_def)
  moreover have "step s8 (goto 2 ?op Waiting (s8\<lparr>sys_owner := None\<rparr>))"
    by (rule wait) (simp_all add: s8_def s7_def s6_def s5_def one_in_def room_for_one)
  moreover have "goto 2 ?op Waiting (s8\<lparr>sys_owner := None\<rparr>) = one_waits"
    by (simp add: s8_def s7_def s6_def s5_def one_in_def one_waits_def goto_def wake_def fun_eq_iff)
  ultimately show ?thesis using reachable_one_in by (metis reach_step)
qed

lemma nobody_moves_one_waits: "\<not> moving one_waits t"
  by (simp add: moving_def one_waits_def)

lemma no_step_one_waits: "\<nexists>s'. quiet_step one_waits s'"
  using nobody_moves_one_waits by (auto simp: quiet_step_def)

section \<open>Properties\<close>

text \<open>C1: no wake-up is lost: when, in a run with a fixed maximum size, no thread can move any more
  without a new call, a spurious wake-up or a time-out, then every thread is out of the queue, or
  is a \<open>get\<close> that waits on an empty list, or a \<open>put\<close> that waits on a full one.\<close>

theorem queue_loses_no_wakeup:
  assumes "reachable n s" and "\<nexists>s'. quiet_step s s'"
  shows "settled n s"
  using assms by (rule no_quiet_step_settled)

lemma queue_loses_no_wakeup_witness: "settled 1 one_waits"
  using queue_loses_no_wakeup [OF reachable_one_waits no_step_one_waits] .

text \<open>From every reachable state the threads in the queue, moving in a suitable order, come to such
  a settled state without outside help: there is no deadlock.\<close>

theorem queue_settles:
  assumes "reachable n s"
  shows "\<exists>s'. quiet_step\<^sup>*\<^sup>* s s' \<and> reachable n s' \<and> settled n s'"
proof -
  obtain s' where "quiet_step\<^sup>*\<^sup>* s s'" "\<nexists>s''. quiet_step s' s''" using quiet_run_ends by blast
  with assms reachable_quiet no_quiet_step_settled show ?thesis by blast
qed

lemma queue_settles_witness: "\<exists>s'. quiet_step\<^sup>*\<^sup>* one_in s' \<and> reachable 1 s' \<and> settled 1 s'"
  using queue_settles [OF reachable_one_in] .

text \<open>C12: whatever the order in which the threads move, they cannot move for ever without a new call, a
  spurious wake-up or a time-out: there is no livelock.\<close>

theorem queue_has_no_livelock: "\<nexists>f. \<forall>i::nat. quiet_step (f i) (f (Suc i))"
proof
  assume "\<exists>f. \<forall>i::nat. quiet_step (f i) (f (Suc i) :: 'a system)"
  then obtain f :: "nat \<Rightarrow> 'a system" where f: "quiet_step (f i) (f (Suc i))" for i by blast
  have "total_weight (f i) + i \<le> total_weight (f 0)" for i
  proof (induction i)
    case (Suc i)
    with quiet_step_weight [OF f [of i]] show ?case by simp
  qed simp
  from this [of "Suc (total_weight (f 0))"] show False by simp
qed

text \<open>C10: two threads are never both in the critical section of \<open>get\<close> or \<open>put\<close>, even when the maximum
  size is changed at any moment and system calls fail.\<close>

theorem queue_mutual_exclusion:
  assumes "reachable_any n s" and "critical (sys_pc s t)" and "critical (sys_pc s u)"
  shows "t = u"
  using owner.holds_any [OF assms(1)] assms(2,3) by (rule critical_unique)

lemma queue_mutual_exclusion_witness: "critical (sys_pc one_in 1) \<and> (1 :: pthread_t) = 1"
  using queue_mutual_exclusion [OF reachable_failing_is_any [OF reachable_is_failing [OF reachable_one_in]], of 1 1]
  by (simp add: one_in_def)

text \<open>C11: items come out in the order they went in, none is lost, duplicated or made up: what was put
  is what was got followed by what is in the list.  Neither a change of the maximum size nor a system
  call that fails can break this.\<close>

theorem queue_is_fifo:
  assumes "reachable_any n s"
  shows "sys_put s = sys_got s @ sys_items s"
  using fifo.holds_any [OF assms] by (simp add: inv_fifo_def)

lemma queue_is_fifo_witness: "sys_put one_waits = sys_got one_waits @ sys_items one_waits"
  using queue_is_fifo [OF reachable_failing_is_any [OF reachable_is_failing [OF reachable_one_waits]]] .

text \<open>With a fixed maximum size the list never holds more items than the limit the comparison works
  with, the maximum size read as an unsigned 64-bit number.\<close>

theorem queue_is_bounded:
  assumes "reachable n s"
  shows "length (sys_items s) \<le> unat (int_to_size_t n)"
  using bounded.holds [OF assms] by (simp add: inv_capacity_def capacity_def)

lemma queue_is_bounded_witness: "length (sys_items one_waits) \<le> 1"
  using queue_is_bounded [OF reachable_one_waits] by (simp add: int_to_size_t_def)

text \<open>The specification: a bounded first-in first-out buffer.\<close>

inductive fifo_step :: "nat \<Rightarrow> 'a list \<Rightarrow> 'a list \<Rightarrow> bool" for cap where
  enqueue: "length xs < cap \<Longrightarrow> fifo_step cap xs (xs @ [x])"
| dequeue: "fifo_step cap (x # xs) xs"

text \<open>C4: the interleaved execution, failing system calls included, refines a bounded buffer: every
  step leaves the list alone, or takes its first item, or appends one to a list below the limit.\<close>

theorem queue_refines_bounded_buffer:
  assumes "reachable_failing n s" and "sys_step s s'"
  shows "sys_items s' = sys_items s \<or> fifo_step (capacity n) (sys_items s) (sys_items s')"
  using assms(2) unfolding sys_step_def
proof
  assume "step s s'"
  then show ?thesis
  proof cases
    case (take t b x rest)
    then show ?thesis by (simp add: dequeue)
  next
    case (push t x b)
    then have "length (sys_items s) < capacity n"
      using bounded.holds_failing [OF assms(1)] by (auto simp: inv_capacity_def)
    with push show ?thesis by (simp add: enqueue)
  qed simp_all
qed (simp add: fault_fields(1))

lemma queue_refines_bounded_buffer_witness:
  "sys_items one_in = sys_items before_push \<or> fifo_step (capacity 1) (sys_items before_push) (sys_items one_in)"
  using queue_refines_bounded_buffer [OF reachable_is_failing [OF reachable_before_push] step_sys_step [OF step_push]] .

text \<open>A thread about to take the front of the list finds an item there, and one about to append finds
  room: what the predicate established still holds.\<close>

theorem queue_commit_is_safe:
  assumes "reachable n s" and "sys_pc s t = Running op Commit"
  shows "ready op (sys_items s) n"
proof (cases op)
  case (Get b)
  with assms(2) nonempty.holds [OF assms(1)] show ?thesis by (auto simp: inv_take_def)
next
  case (Put x b)
  with assms(2) bounded.holds [OF assms(1)] show ?thesis
    by (auto simp: inv_capacity_def has_room_capacity)
qed

lemma queue_commit_is_safe_witness: "ready (Put 7 False) (sys_items before_push) 1"
  by (rule queue_commit_is_safe [OF reachable_before_push]) (simp add: before_push_def)

text \<open>A call without a waiting time never gives up: it neither times out nor ends with an exception
  of the queue or of a refused deadline.\<close>

theorem queue_untimed_calls_never_give_up:
  assumes "reachable_resizing n s" and "sys_pc s t = Running op st" and "\<not> timed op"
  shows "\<not> late st"
  using timing.holds_resizing [OF assms(1)] assms(2,3)
  by (auto simp: inv_timed_def dest!: spec [of _ t])

lemma queue_untimed_calls_never_give_up_witness: "\<not> late Waiting"
  by (rule queue_untimed_calls_never_give_up [OF reachable_is_resizing [OF reachable_one_waits],
      of 2 "Put 8 False"]) (simp_all add: one_waits_def)

text \<open>A \<open>get\<close> is never left behind, even when the maximum size is changed at any moment: when no
  thread can move by itself, a \<open>get\<close> that waits does so on an empty list.\<close>

theorem queue_readers_lose_no_wakeup:
  assumes "reachable_resizing n s" and "\<And>t. \<not> moving s t" and "waiting_for True s u"
  shows "sys_items s = []"
proof -
  have "\<not> active True (sys_pc s t)" for t
    using assms(2) [of t] by (auto simp: moving_def split: pc.splits)
  then have "actives True s = 0" by (simp add: actives_def how_many_eq_0)
  moreover have "somebody_waits True s" using assms(3) by (auto simp: somebody_waits_def)
  ultimately show ?thesis
    using readers_balance.holds_resizing [OF assms(1)] by (simp add: inv_balance_def on_offer_def)
qed

text \<open>C37: \<open>set_max_size\<close> wakes nobody: a \<open>put\<close> that waited for room stays blocked although the new size has
  room for its item, and no thread of the queue can move.\<close>

theorem queue_resize_loses_wakeup:
  "\<exists>s :: nat system. reachable_resizing 1 s \<and> (\<nexists>s'. quiet_step s s') \<and> waiting_for False s 2
     \<and> has_room (sys_items s) (sys_max s)"
proof -
  define s where "s = one_waits\<lparr>sys_max := ucast (10 :: size_t)\<rparr>"
  have "resize one_waits s" unfolding s_def by (rule resize.intros)
  with reachable_one_waits have "reachable_resizing 1 s"
    by (blast intro: resizing_resize reachable_is_resizing)
  moreover have "\<not> moving s t" for t by (simp add: s_def moving_def one_waits_def)
  then have "\<nexists>s'. quiet_step s s'" by (simp add: quiet_step_def)
  moreover have "waiting_for False s 2" and "has_room (sys_items s) (sys_max s)"
    by (simp_all add: s_def one_waits_def waiting_for_def has_room_def list_size_def int_to_size_t_def)
  ultimately show ?thesis by blast
qed

text \<open>A reader that waits: the witness of the property of the readers.\<close>

definition reader_waits :: "nat system" where
  "reader_waits = \<lparr>sys_items = [], sys_max = 1, sys_owner = None,
     sys_pc = (\<lambda>_. Idle)(3 := Running (Get False) Waiting), sys_put = [], sys_got = []\<rparr>"

lemma reachable_reader_waits: "reachable 1 reader_waits"
proof -
  let ?op = "Get False :: nat op"
  define s1 where "s1 = goto 3 ?op Lock (initial 1)"
  define s2 where "s2 = goto 3 ?op (Test False) (s1\<lparr>sys_owner := Some 3\<rparr>)"
  have "reachable 1 s1" unfolding s1_def by (intro reach_step [OF reach_init] start) simp
  moreover have "step s1 s2" unfolding s2_def by (rule lock) (simp_all add: s1_def)
  moreover have "step s2 (goto 3 ?op Waiting (s2\<lparr>sys_owner := None\<rparr>))"
    by (rule wait) (simp_all add: s2_def s1_def)
  moreover have "goto 3 ?op Waiting (s2\<lparr>sys_owner := None\<rparr>) = reader_waits"
    by (simp add: s2_def s1_def reader_waits_def goto_def initial_def)
  ultimately show ?thesis by (metis reach_step)
qed

lemma queue_readers_lose_no_wakeup_witness: "sys_items reader_waits = []"
  by (rule queue_readers_lose_no_wakeup [OF reachable_is_resizing [OF reachable_reader_waits], of 3])
    (simp_all add: reader_waits_def moving_def waiting_for_def)

end
