(* ===== verification/Sync_Queue_Simulation.thy ===== *)
theory Sync_Queue_Simulation
  imports Sync_Queue_Progress
begin

text \<open>
  The two models of the queue agree: a call of a method, as one thread runs it over the
  functions of the system, is a run of the step relation, and takes effect at one step of it.
  What the system's functions do while the thread is inside them, the steps of the other
  threads included, is stated as the locale \<open>queue_os\<close>.
\<close>

section \<open>What the system does between two actions of a thread\<close>

text \<open>The condition a call waits on, and the one it notifies.\<close>

definition waits_on :: "sync_queue \<Rightarrow> 'a op \<Rightarrow> condition_variable" where
  "waits_on q op = (if is_get op then q_not_empty_cv q else q_not_full_cv q)"

definition notifies :: "sync_queue \<Rightarrow> 'a op \<Rightarrow> condition_variable" where
  "notifies q op = (if is_get op then q_not_full_cv q else q_not_empty_cv q)"

text \<open>Runs in which thread \<open>t\<close> does not change the list: it is never at that stage.\<close>

definition passes :: "pthread_t \<Rightarrow> 'a system \<Rightarrow> 'a system \<Rightarrow> bool" where
  "passes t s s' \<longleftrightarrow> sys_step s s' \<and> (\<forall>op. sys_pc s t \<noteq> Running op Commit)"

abbreviation runs :: "pthread_t \<Rightarrow> 'a system \<Rightarrow> 'a system \<Rightarrow> bool" where
  "runs t \<equiv> (passes t)\<^sup>*\<^sup>*"

lemma passesI:
  "step s s' \<Longrightarrow> sys_pc s t = p \<Longrightarrow> \<forall>op. p \<noteq> Running op Commit \<Longrightarrow> passes t s s'"
  "fault s s' \<Longrightarrow> sys_pc s t = p \<Longrightarrow> \<forall>op. p \<noteq> Running op Commit \<Longrightarrow> passes t s s'"
  by (simp_all add: passes_def sys_step_def)

lemma runs_sys_step: "runs t s s' \<Longrightarrow> sys_step\<^sup>*\<^sup>* s s'"
  by (rule mono_rtranclp [rule_format]) (auto simp: passes_def)

text \<open>
  \<open>R\<close> relates what thread \<open>t\<close> sees to the state of all threads.  Thread \<open>t\<close> may change its
  own variables, the list and its own stage.  Every function of the system runs some steps, and
  the stage of \<open>t\<close> afterwards is told by its code, be it a success or an error; only the unlock
  of the owner cannot fail.  None of them changes the list for \<open>t\<close>, and none touches the caller's
  variable once \<open>t\<close> has changed the list.
\<close>

locale queue_os =
  fixes P :: "(('a, 'z) queue_mem_scheme, 'y) cond_api_scheme"
    and t :: pthread_t and q :: sync_queue and item :: addr
    and R :: "('a, 'z) queue_mem_scheme \<Rightarrow> 'a system \<Rightarrow> bool"
  assumes memory: "R w s \<Longrightarrow> sys_items s = q_items w \<and> sys_max s = q_max_size w"
    and own_memory: "R w s \<Longrightarrow> R (w\<lparr>q_vars := f, q_items := xs\<rparr>)
        (goto t op st (s\<lparr>sys_items := xs, sys_put := p, sys_got := g\<rparr>))"
    and own_deadline: "R w s \<Longrightarrow> R (set_timeout c ts w) s"
    and clock_runs: "R w s \<Longrightarrow> sys_pc s t = Running op (Test False) \<Longrightarrow> timed op \<Longrightarrow>
        gettimeofday P w = ((rc, now), w') \<Longrightarrow>
        \<exists>s'. runs t s s' \<and> R w' s'
          \<and> sys_pc s' t = Running op (if rc = 0 then Test False else Unlock Cv_error)"
    and lock_runs: "R w s \<Longrightarrow> sys_pc s t = Running op Lock \<Longrightarrow>
        pthread_mutex_lock P t (q_mutex q) w = Some (rc, w') \<Longrightarrow>
        \<exists>s'. runs t s s' \<and> R w' s' \<and> sys_pc s' t = (if rc = 0 then Running op (Test False) else Idle)"
    and wait_runs: "R w s \<Longrightarrow> sys_pc s t = Running op (Test False) \<Longrightarrow>
        \<not> ready op (sys_items s) (sys_max s) \<Longrightarrow>
        pthread_cond_wait P t (waits_on q op) (q_mutex q) w = Some (rc, w') \<Longrightarrow>
        \<exists>s'. runs t s s' \<and> R w' s' \<and> sys_pc s' t = Running op (Test False)"
    and timedwait_runs: "R w s \<Longrightarrow> sys_pc s t = Running op (Test False) \<Longrightarrow> timed op \<Longrightarrow>
        \<not> ready op (sys_items s) (sys_max s) \<Longrightarrow>
        pthread_cond_timedwait P t (waits_on q op) (q_mutex q) ts w = Some (rc, w') \<Longrightarrow>
        \<exists>s'. runs t s s' \<and> R w' s' \<and> sys_pc s' t = Running op
          (if rc = ETIMEDOUT then Test True
           else if rc = EINVAL \<or> rc = EPERM then Unlock Cv_error else Test False)"
    and signal_runs: "R w s \<Longrightarrow> sys_pc s t = Running op Notify \<Longrightarrow>
        pthread_cond_signal P (notifies q op) w = (rc, w') \<Longrightarrow>
        q_vars w' item = q_vars w item \<and> (\<exists>s'. runs t s s' \<and> R w' s'
          \<and> sys_pc s' t = Running op (Unlock (if rc = 0 then Returned else Cv_error)))"
    and broadcast_runs: "R w s \<Longrightarrow> sys_pc s t = Running op Fail \<Longrightarrow>
        pthread_cond_broadcast P (notifies q op) w = (rc, w') \<Longrightarrow>
        \<exists>s'. runs t s s' \<and> R w' s'
          \<and> sys_pc s' t = Running op (Unlock (if rc = 0 then Queue_error else Cv_error))"
    and unlock_runs: "R w s \<Longrightarrow> sys_pc s t = Running op (Unlock res) \<Longrightarrow>
        pthread_mutex_unlock P t (q_mutex q) w = (rc, w') \<Longrightarrow>
        rc = 0 \<and> q_vars w' item = q_vars w item
        \<and> (\<exists>s'. runs t s s' \<and> R w' s' \<and> sys_pc s' t = Idle)"

text \<open>The step at which a call takes effect.\<close>

definition commits :: "pthread_t \<Rightarrow> 'a op \<Rightarrow> 'a system \<Rightarrow> 'a system \<Rightarrow> bool" where
  "commits t op s s' \<longleftrightarrow> step s s' \<and> sys_pc s t = Running op Commit \<and> sys_pc s' t = Running op Notify"

text \<open>What that step does to the list; \<open>x\<close> is the value the caller of \<open>get\<close> receives.\<close>

fun effect :: "'a op \<Rightarrow> 'a \<Rightarrow> 'a system \<Rightarrow> 'a system \<Rightarrow> bool" where
  "effect (Get _) x s s' \<longleftrightarrow> sys_items s = x # sys_items s'"
| "effect (Put y _) x s s' \<longleftrightarrow> sys_items s' = sys_items s @ [y]"

text \<open>A call that takes effect somewhere in a run, once, and one that gives up in it.\<close>

definition takes_effect :: "pthread_t \<Rightarrow> 'a op \<Rightarrow> 'a \<Rightarrow> 'a system \<Rightarrow> 'a system \<Rightarrow> bool" where
  "takes_effect t op x s s' \<longleftrightarrow>
     (\<exists>sa sb. runs t s sa \<and> commits t op sa sb \<and> effect op x sa sb \<and> runs t sb s')"

definition gives_up :: "pthread_t \<Rightarrow> 'a op \<Rightarrow> 'a system \<Rightarrow> 'a system \<Rightarrow> bool" where
  "gives_up t op s s' \<longleftrightarrow>
     (\<exists>sf. runs t s sf \<and> sys_pc sf t = Running op Fail \<and> \<not> ready op (sys_items sf) (sys_max sf)
        \<and> runs t sf s')"

text \<open>
  How a call ends: it returns and has taken effect; or, where it has a waiting time, it has given
  up and throws \<open>e\<close>; or a call of the system failed, and its exception goes on: in the notification,
  then the call has taken effect all the same, or earlier, and then it has not.
\<close>

definition ends_as ::
  "pthread_t \<Rightarrow> 'a op \<Rightarrow> exn option \<Rightarrow> exn failure + unit \<Rightarrow> 'a \<Rightarrow> 'a system \<Rightarrow> 'a system \<Rightarrow> bool" where
  "ends_as t op e r x s s' \<longleftrightarrow>
     r = Inr () \<and> takes_effect t op x s s'
     \<or> (\<exists>e'. e = Some e' \<and> r = Inl (Thrown e')) \<and> gives_up t op s s'
     \<or> (\<exists>e'. r = Inl (Thrown e') \<and> is_pthread_exception e') \<and> (takes_effect t op x s s' \<or> runs t s s')"

lemma takes_effect_runs: "takes_effect t op x s s' \<Longrightarrow> sys_step\<^sup>*\<^sup>* s s'"
  unfolding takes_effect_def commits_def
  by (meson converse_rtranclp_into_rtranclp rtranclp_trans runs_sys_step step_sys_step)

lemma takes_effect_within:
  "runs t s s1 \<Longrightarrow> takes_effect t op x s1 s2 \<Longrightarrow> runs t s2 s' \<Longrightarrow> takes_effect t op x s s'"
  unfolding takes_effect_def by (meson rtranclp_trans)

lemma gives_up_within:
  "runs t s s1 \<Longrightarrow> gives_up t op s1 s2 \<Longrightarrow> runs t s2 s' \<Longrightarrow> gives_up t op s s'"
  unfolding gives_up_def by (meson rtranclp_trans)

lemma ends_as_within:
  assumes "runs t s s1" and "ends_as t op e r x s1 s2" and "runs t s2 s'"
  shows "ends_as t op e r x s s'"
  using assms(2) takes_effect_within [OF assms(1) _ assms(3)] gives_up_within [OF assms(1) _ assms(3)]
    rtranclp_trans [OF rtranclp_trans [OF assms(1)] assms(3)]
  unfolding ends_as_def by blast

lemma ends_as_outcome: "ends_as t op e r x s s' \<Longrightarrow> r = Inr () \<or> (\<exists>e. r = Inl (Thrown e))"
  by (auto simp: ends_as_def)

text \<open>How a wait with a deadline ends: at a test with its result, or leaving with an exception.\<close>

definition wait_ends ::
  "('w \<Rightarrow> 'a system \<Rightarrow> bool) \<Rightarrow> pthread_t \<Rightarrow> 'a op \<Rightarrow> exn failure + bool \<Rightarrow> 'w \<Rightarrow> 'a system \<Rightarrow> bool" where
  "wait_ends R t op r w s = (case r of
       Inr b \<Rightarrow> \<exists>s' timed_out. runs t s s' \<and> R w s' \<and> sys_pc s' t = Running op (Test timed_out)
         \<and> b = ready op (sys_items s') (sys_max s') \<and> (\<not> b \<longrightarrow> timed_out)
     | Inl f \<Rightarrow> \<exists>e s'. f = Thrown e \<and> is_pthread_exception e \<and> runs t s s' \<and> R w s'
         \<and> sys_pc s' t = Running op (Unlock Cv_error))"

lemma wait_ends_later: "runs t s s1 \<Longrightarrow> wait_ends R t op r w s1 \<Longrightarrow> wait_ends R t op r w s"
  by (cases r) (auto simp: wait_ends_def dest: rtranclp_trans [of "passes t" s s1])

text \<open>The body of a call, from a test to the unlock.\<close>

definition leaves ::
  "(('a, 'z) queue_mem_scheme \<Rightarrow> 'a system \<Rightarrow> bool) \<Rightarrow> pthread_t \<Rightarrow> addr \<Rightarrow> 'a op \<Rightarrow> exn option
     \<Rightarrow> exn failure + unit \<Rightarrow> ('a, 'z) queue_mem_scheme \<Rightarrow> 'a system \<Rightarrow> bool" where
  "leaves R t item op e r w s \<longleftrightarrow> (\<exists>s' res. R w s' \<and> sys_pc s' t = Running op (Unlock res)
     \<and> ends_as t op e r (q_vars w item) s s')"

lemma leaves_later: "runs t s s1 \<Longrightarrow> leaves R t item op e r w s1 \<Longrightarrow> leaves R t item op e r w s"
  unfolding leaves_def by (meson ends_as_within rtranclp.rtrancl_refl)

context queue_os
begin

text \<open>Thread \<open>t\<close> moves to another stage by itself.\<close>

lemma own_stage:
  assumes "R w s"
  shows "R w (goto t op st s)"
proof -
  have "s\<lparr>sys_items := q_items w, sys_put := sys_put s, sys_got := sys_got s\<rparr> = s"
    using memory [OF assms] by (cases s) simp
  then show ?thesis
    using own_memory [OF assms, where f = "q_vars w" and xs = "q_items w" and op = op and st = st
        and p = "sys_put s" and g = "sys_got s"] by simp
qed

text \<open>The loop without a deadline.\<close>

lemma first_wait_runs:
  assumes "first_wait P t (waits_on q op) (q_mutex q) p n w w'"
    and "R w s" and "sys_pc s t = Running op (Test False)"
    and p: "\<And>w. p w = ready op (q_items w) (q_max_size w)"
  shows "\<exists>s'. runs t s s' \<and> R w' s' \<and> sys_pc s' t = Running op (Test False)
    \<and> ready op (sys_items s') (sys_max s')"
  using assms(1-3)
proof (induction n arbitrary: w s)
  case 0
  with p memory [of w s] show ?case by (intro exI [of _ s]) simp
next
  case (Suc n)
  then obtain rc u where "\<not> p w" and c: "pthread_cond_wait P t (waits_on q op) (q_mutex q) w = Some (rc, u)"
    and rest: "first_wait P t (waits_on q op) (q_mutex q) p n u w'"
    by (auto simp: first_wait_Suc)
  then have "\<not> ready op (sys_items s) (sys_max s)" using p memory [OF Suc.prems(2)] by simp
  from wait_runs [OF Suc.prems(2,3) this c] obtain s1
    where s1: "runs t s s1" "R u s1" "sys_pc s1 t = Running op (Test False)" by blast
  from Suc.IH [OF rest s1(2,3)] s1(1) show ?case by (meson rtranclp_trans)
qed

text \<open>The loop with a deadline, up to its last world, and its end.\<close>

lemma first_timed_runs:
  assumes "first_timed P t (waits_on q op) (q_mutex q) p n w w'"
    and "R w s" and "sys_pc s t = Running op (Test False)" and "timed op"
    and p: "\<And>w. p w = ready op (q_items w) (q_max_size w)"
  shows "\<exists>s'. runs t s s' \<and> R w' s' \<and> sys_pc s' t = Running op (Test False)"
  using assms(1-3)
proof (induction n arbitrary: w s)
  case 0
  then show ?case by (intro exI [of _ s]) simp
next
  case (Suc n)
  then obtain rc u where "\<not> p w"
    and c: "pthread_cond_timedwait P t (waits_on q op) (q_mutex q) (cv_timeout w (waits_on q op)) w = Some (rc, u)"
    and go: "goes_on rc" and rest: "first_timed P t (waits_on q op) (q_mutex q) p n u w'"
    by (auto simp: first_timed_Suc)
  then have "\<not> ready op (sys_items s) (sys_max s)" using p memory [OF Suc.prems(2)] by simp
  from timedwait_runs [OF Suc.prems(2,3) assms(4) this c] go obtain s1
    where s1: "runs t s s1" "R u s1" "sys_pc s1 t = Running op (Test False)" by (auto simp: goes_on_def)
  from Suc.IH [OF rest s1(2,3)] s1(1) show ?case by (meson rtranclp_trans)
qed

lemma timed_end_runs:
  assumes "timed_end P t (waits_on q op) (q_mutex q) p u r w'"
    and "R u s" and "sys_pc s t = Running op (Test False)" and "timed op"
    and p: "\<And>w. p w = ready op (q_items w) (q_max_size w)"
  shows "wait_ends R t op r w' s"
proof (cases "p u")
  case True
  with assms(1-3) p memory [OF assms(2)] show ?thesis
    by (auto simp: timed_end_def wait_ends_def)
next
  case False
  then have no: "\<not> ready op (sys_items s) (sys_max s)" using p memory [OF assms(2)] by simp
  from False assms(1) obtain rc where
    c: "pthread_cond_timedwait P t (waits_on q op) (q_mutex q) (cv_timeout u (waits_on q op)) u = Some (rc, w')"
    and r: "rc = ETIMEDOUT \<and> r = Inr (p w')
       \<or> (rc = EINVAL \<or> rc = EPERM) \<and> (\<exists>e. r = Inl (Thrown e) \<and> is_pthread_exception e)"
    by (auto simp: timed_end_def exception_defs)
  from timedwait_runs [OF assms(2-4) no c] obtain s'
    where s': "runs t s s'" "R w' s'" "sys_pc s' t = Running op
          (if rc = ETIMEDOUT then Test True
           else if rc = EINVAL \<or> rc = EPERM then Unlock Cv_error else Test False)" by blast
  from r show ?thesis
  proof (elim disjE conjE)
    assume "rc = ETIMEDOUT" "r = Inr (p w')"
    with s' p memory [OF s'(2)] show ?thesis
      by (simp add: wait_ends_def) (metis memory)
  qed (use s' in \<open>auto simp: wait_ends_def\<close>)
qed

text \<open>A scope with the guard: the body starts at the test, and ends at the unlock.\<close>

lemma guarded_ends:
  assumes "R w s" and "sys_pc s t = Idle"
    and run: "with_lock_guard (mutex_as_type P t) (q_mutex q) body w = Some (r, w')"
    and body: "\<And>w1 s1 r1 w2. R w1 s1 \<Longrightarrow> sys_pc s1 t = Running op (Test False) \<Longrightarrow>
      body \<lparr>lg_mutex = q_mutex q\<rparr> w1 = Some (r1, w2) \<Longrightarrow> leaves R t item op e r1 w2 s1"
  shows "\<exists>s'. R w' s' \<and> sys_pc s' t = Idle \<and> ends_as t op e r (q_vars w' item) s s'"
proof -
  let ?g = "\<lparr>lg_mutex = q_mutex q\<rparr>"
  have start: "passes t s (goto t op Lock s)"
    by (rule passesI(1) [OF start [OF assms(2)] assms(2)]) simp
  moreover have "R w (goto t op Lock s)" using assms(1) by (rule own_stage)
  moreover obtain rc w1 where l: "pthread_mutex_lock P t (q_mutex q) w = Some (rc, w1)"
    using run by (cases "pthread_mutex_lock P t (q_mutex q) w")
      (auto simp: mutex_lock_cases with_lock_guard_blocks)
  ultimately obtain s1 where s1: "runs t s s1" "R w1 s1"
    "sys_pc s1 t = (if rc = 0 then Running op (Test False) else Idle)"
    using lock_runs [of w "goto t op Lock s" op rc w1]
    by (auto intro: converse_rtranclp_into_rtranclp)
  show ?thesis
  proof (cases "rc = 0")
    case False
    define err where "err = mutex_exception (strerror P) ''pthread_mutex_lock failed.'' rc"
    have "mt_lock (mutex_as_type P t) (q_mutex q) w = Some (Inl (Thrown err), w1)"
      using l False by (simp add: mutex_lock_cases err_def)
    from with_lock_guard_lock_fails [OF this, of body] run have "r = Inl (Thrown err)" "w' = w1" by auto
    moreover have "is_pthread_exception err" by (simp add: err_def exception_defs)
    ultimately show ?thesis using s1 False by (auto simp: ends_as_def)
  next
    case True
    with s1 have s1': "sys_pc s1 t = Running op (Test False)" by simp
    from l True have "mutex_lock P t (q_mutex q) w = Some (Inr (), w1)" by (simp add: mutex_lock_ok_iff)
    with run have scope: "scoped (body ?g) (mutex_unlock P t (q_mutex q)) w1 = Some (r, w')"
      by (simp add: with_lock_guard_run)
    then obtain r1 w2 where b: "body ?g w1 = Some (r1, w2)"
      by (cases "body ?g w1") (auto simp: scoped_None)
    from body [OF s1(2) s1' b] obtain s2 res where s2: "R w2 s2" "sys_pc s2 t = Running op (Unlock res)"
      and ends: "ends_as t op e r1 (q_vars w2 item) s1 s2" unfolding leaves_def by blast
    obtain rc2 w3 where u: "pthread_mutex_unlock P t (q_mutex q) w2 = (rc2, w3)" by (metis surj_pair)
    from unlock_runs [OF s2 u] obtain s' where s': "runs t s2 s'" "R w3 s'" "sys_pc s' t = Idle"
      and "rc2 = 0" "q_vars w3 item = q_vars w2 item" by blast
    with u have "mutex_unlock P t (q_mutex q) w2 = Some (Inr (), w3)" by (simp add: mutex_unlock_ok_iff)
    with b ends_as_outcome [OF ends] have "scoped (body ?g) (mutex_unlock P t (q_mutex q)) w1 = Some (r1, w3)"
      by (intro scoped_dtor_ok) auto
    with scope s' ends_as_within [OF s1(1) ends s'(1)] \<open>q_vars w3 item = q_vars w2 item\<close>
    show ?thesis by auto
  qed
qed

text \<open>The notification after the effect: whether it succeeds or not, the call has taken effect.\<close>

lemma notified_leaves:
  assumes "R w s" and "sys_pc s t = Running op Notify" and "runs t s0 sa" and "commits t op sa s"
    and "effect op (q_vars w item) sa s" and "cv_notify_one P (notifies q op) w = Some (r, w')"
  shows "leaves R t item op e r w' s0"
proof -
  obtain rc w2 where sig: "pthread_cond_signal P (notifies q op) w = (rc, w2)" by (metis surj_pair)
  from signal_runs [OF assms(1,2) sig] obtain s' where s': "runs t s s'" "R w2 s'"
    "sys_pc s' t = Running op (Unlock (if rc = 0 then Returned else Cv_error))"
    and vars: "q_vars w2 item = q_vars w item" by blast
  have r: "w' = w2" "r = Inr () \<or> (\<exists>e'. r = Inl (Thrown e') \<and> is_pthread_exception e')"
    using assms(6) sig by (auto simp: cv_notify_one_def comp_simps exception_defs split: if_splits)
  have "takes_effect t op (q_vars w' item) s0 s'"
    unfolding takes_effect_def using assms(3-5) s'(1) vars r(1) by auto
  with r s' show ?thesis unfolding leaves_def ends_as_def by blast
qed

text \<open>From a successful test to the unlock: the effect and the notification.\<close>

lemma take_runs:
  assumes "R w s" and "sys_pc s t = Running (Get b) (Test timed_out)"
    and "ready (Get b) (sys_items s) (sys_max s)"
    and "seq (take_front item) (cv_notify_one P (q_not_full_cv q)) w = Some (r, w')"
  shows "leaves R t item (Get b) e r w' s"
proof -
  from assms(3) memory [OF assms(1)] obtain x rest where items: "sys_items s = x # rest" "q_items w = x # rest"
    by (auto simp: neq_Nil_conv)
  define sa where "sa = goto t (Get b) Commit s"
  define sb where "sb = goto t (Get b) Notify (sa\<lparr>sys_items := rest, sys_got := sys_got sa @ [x]\<rparr>)"
  define wb where "wb = w\<lparr>q_vars := (q_vars w)(item := x), q_items := rest\<rparr>"
  have "passes t s sa" unfolding sa_def
    by (rule passesI(1) [OF test_true [OF assms(2,3)] assms(2)]) simp
  then have sa: "runs t s sa" ..
  have "step sa sb" unfolding sb_def by (rule step.take) (simp_all add: sa_def items)
  then have c: "commits t (Get b) sa sb" by (simp add: commits_def sa_def sb_def)
  have "sb = goto t (Get b) Notify (s\<lparr>sys_items := rest, sys_put := sys_put s, sys_got := sys_got s @ [x]\<rparr>)"
    by (simp add: sb_def sa_def goto_def)
  then have Rb: "R wb sb" unfolding wb_def using own_memory [OF assms(1)] by metis
  have "cv_notify_one P (notifies q (Get b)) wb = Some (r, w')"
    using assms(4) take_front_run [OF items(2), of item] by (simp add: bind_Inr notifies_def wb_def)
  from notified_leaves [OF Rb _ sa c _ this] show ?thesis by (simp add: sb_def sa_def wb_def items)
qed

lemma push_runs:
  assumes "R w s" and "sys_pc s t = Running (Put x b) (Test timed_out)"
    and "ready (Put x b) (sys_items s) (sys_max s)"
    and "seq (push_back x) (cv_notify_one P (q_not_empty_cv q)) w = Some (r, w')"
  shows "leaves R t item (Put x b) e r w' s"
proof -
  define sa where "sa = goto t (Put x b) Commit s"
  define sb where "sb = goto t (Put x b) Notify
      (sa\<lparr>sys_items := sys_items sa @ [x], sys_put := sys_put sa @ [x]\<rparr>)"
  define wb where "wb = w\<lparr>q_vars := q_vars w, q_items := q_items w @ [x]\<rparr>"
  have "passes t s sa" unfolding sa_def
    by (rule passesI(1) [OF test_true [OF assms(2,3)] assms(2)]) simp
  then have sa: "runs t s sa" ..
  have "step sa sb" unfolding sb_def by (rule push) (simp add: sa_def)
  then have c: "commits t (Put x b) sa sb" by (simp add: commits_def sa_def sb_def)
  have "sb = goto t (Put x b) Notify
      (s\<lparr>sys_items := q_items w @ [x], sys_put := sys_put s @ [x], sys_got := sys_got s\<rparr>)"
    using memory [OF assms(1)] by (simp add: sb_def sa_def goto_def)
  then have Rb: "R wb sb" unfolding wb_def using own_memory [OF assms(1)] by metis
  have "push_back x w = Some (Inr (), wb)" by (simp add: push_back_ok_iff wb_def)
  with assms(4) have "cv_notify_one P (notifies q (Put x b)) wb = Some (r, w')"
    by (simp add: bind_Inr notifies_def)
  from notified_leaves [OF Rb _ sa c _ this] show ?thesis by (simp add: sb_def sa_def)
qed

text \<open>The outcomes of a body: it takes effect, or it gives up, or a call of the system fails.\<close>

lemma wait_then_runs:
  assumes "R w s" and "sys_pc s t = Running op (Test False)"
    and run: "seq (cv_wait_pred P t (waits_on q op) (q_mutex q) (gets p)) act w = Some (r, w')"
    and p: "\<And>w. p w = ready op (q_items w) (q_max_size w)"
    and act: "\<And>w s timed_out r w'. R w s \<Longrightarrow> sys_pc s t = Running op (Test timed_out) \<Longrightarrow>
      ready op (sys_items s) (sys_max s) \<Longrightarrow> act w = Some (r, w') \<Longrightarrow> leaves R t item op e r w' s"
  shows "leaves R t item op e r w' s"
  using run
proof (cases rule: bind_Some_E)
  case (failed f)
  then show ?thesis by (simp add: cv_wait_pred_iff)
next
  case (went_on a w1)
  then obtain n where "first_wait P t (waits_on q op) (q_mutex q) p n w w1" by (auto simp: cv_wait_pred_iff)
  from first_wait_runs [OF this assms(1,2) p] obtain s1
    where "runs t s s1" "R w1 s1" "sys_pc s1 t = Running op (Test False)"
      "ready op (sys_items s1) (sys_max s1)" by blast
  with went_on(2) act leaves_later show ?thesis by blast
qed

text \<open>The calls, from outside the queue to outside the queue.\<close>

lemma get_runs:
  assumes "R w s" and "sys_pc s t = Idle" and "sync_queue_get P t q item w = Some (r, w')"
  shows "\<exists>s'. R w' s' \<and> sys_pc s' t = Idle \<and> ends_as t (Get False) None r (q_vars w' item) s s'"
proof (rule guarded_ends [OF assms(1,2) assms(3) [unfolded sync_queue_get_def]])
  fix w1 s1 r1 w2
  assume "R w1 s1" "sys_pc s1 t = Running (Get False) (Test False)"
    and "seq (cv_wait_guard_pred P t (q_not_empty_cv q) \<lparr>lg_mutex = q_mutex q\<rparr> (gets queue_not_empty))
      (seq (take_front item) (cv_notify_one P (q_not_full_cv q))) w1 = Some (r1, w2)"
  then show "leaves R t item (Get False) None r1 w2 s1"
    using wait_then_runs [where op = "Get False" and p = queue_not_empty, OF _ _ _ _ take_runs]
    by (simp add: cv_wait_guard_pred_def waits_on_def queue_not_empty_def)
qed

lemma put_runs:
  assumes "R w s" and "sys_pc s t = Idle" and "sync_queue_put P t q x w = Some (r, w')"
  shows "\<exists>s'. R w' s' \<and> sys_pc s' t = Idle \<and> ends_as t (Put x False) None r (q_vars w' item) s s'"
proof (rule guarded_ends [OF assms(1,2) assms(3) [unfolded sync_queue_put_def]])
  fix w1 s1 r1 w2
  assume "R w1 s1" "sys_pc s1 t = Running (Put x False) (Test False)"
    and "seq (cv_wait_pred P t (q_not_full_cv q) (q_mutex q) (gets queue_not_full))
      (seq (push_back x) (cv_notify_one P (q_not_empty_cv q))) w1 = Some (r1, w2)"
  then show "leaves R t item (Put x False) None r1 w2 s1"
    using wait_then_runs [where op = "Put x False" and p = queue_not_full, OF _ _ _ _ push_runs]
    by (simp add: waits_on_def queue_not_full_def)
qed

end

text \<open>
  The calls with a waiting time read the clock; from what POSIX lets it answer the deadline can be
  computed without an overflow.
\<close>

locale timed_queue_os = queue_os P t q item R
  for P :: "(('a, 'z) queue_mem_scheme, 'y) cond_api_scheme" and t and q and item and R +
  assumes documented_clock: "R w s \<Longrightarrow> gettimeofday P w = ((0, now), w') \<Longrightarrow> clock_ok now"

context timed_queue_os
begin

lemma timed_wait_runs:
  assumes "R w s" and "sys_pc s t = Running op (Test False)" and "timed op"
    and run: "cv_wait_for_pred P t (waits_on q op) (q_mutex q) millis (gets p) w = Some (b, w2)"
    and p: "\<And>w. p w = ready op (q_items w) (q_max_size w)"
  shows "wait_ends R t op b w2 s"
proof -
  obtain rc now w0 where time: "gettimeofday P w = ((rc, now), w0)" by (metis surj_pair)
  from clock_runs [OF assms(1-3) time] obtain s0 where s0: "runs t s s0" "R w0 s0"
    "sys_pc s0 t = Running op (if rc = 0 then Test False else Unlock Cv_error)" by blast
  show ?thesis
  proof (cases "rc = 0")
    case False
    with run cv_milliseconds_fails [OF time] s0 show ?thesis
      by (auto simp: wait_ends_def exception_defs)
  next
    case True
    with time have now: "gettimeofday P w = ((0, now), w0)" by simp
    define w1 where "w1 = set_timeout (waits_on q op) (timeout_after now millis) w0"
    have "R w1 s0" unfolding w1_def using s0(2) by (rule own_deadline)
    from run obtain n u where first: "first_timed P t (waits_on q op) (q_mutex q) p n w1 u"
      and last: "timed_end P t (waits_on q op) (q_mutex q) p u b w2"
      unfolding cv_wait_for_pred_iff [OF now clock_ok_fits [OF documented_clock [OF assms(1) now]]] w1_def by blast
    from s0(3) True have "sys_pc s0 t = Running op (Test False)" by simp
    from first_timed_runs [OF first \<open>R w1 s0\<close> this assms(3) p] obtain s1
      where s1: "runs t s0 s1" "R u s1" "sys_pc s1 t = Running op (Test False)" by blast
    from wait_ends_later [OF rtranclp_trans [OF s0(1) s1(1)] timed_end_runs [OF last s1(2,3) assms(3) p]]
    show ?thesis .
  qed
qed

lemma timed_wait_then_runs:
  assumes "R w s" and "sys_pc s t = Running op (Test False)" and "timed op"
    and run: "bind (cv_wait_for_pred P t (waits_on q op) (q_mutex q) millis (gets p))
      (\<lambda>b. if b then act else seq (cv_notify_all P (notifies q op)) (throw e)) w = Some (r, w')"
    and p: "\<And>w. p w = ready op (q_items w) (q_max_size w)"
    and act: "\<And>w s timed_out r w'. R w s \<Longrightarrow> sys_pc s t = Running op (Test timed_out) \<Longrightarrow>
      ready op (sys_items s) (sys_max s) \<Longrightarrow> act w = Some (r, w') \<Longrightarrow> leaves R t item op (Some e) r w' s"
  shows "leaves R t item op (Some e) r w' s"
  using run
proof (cases rule: bind_Some_E)
  case (failed f)
  from timed_wait_runs [OF assms(1-3) failed(1) p] failed(2) show ?thesis
    by (auto simp: wait_ends_def leaves_def ends_as_def)
next
  case (went_on b w2)
  from timed_wait_runs [OF assms(1-3) went_on(1) p] obtain s2 timed_out where s2: "runs t s s2" "R w2 s2"
    "sys_pc s2 t = Running op (Test timed_out)" and b: "b = ready op (sys_items s2) (sys_max s2)"
    and late: "\<not> b \<longrightarrow> timed_out" by (auto simp: wait_ends_def)
  show ?thesis
  proof (cases b)
    case True
    with went_on(2) have "act w2 = Some (r, w')" by simp
    from act [OF s2(2,3) _ this] True b leaves_later [OF s2(1)] show ?thesis by blast
  next
    case False
    define sf where "sf = goto t op Fail s2"
    have "step s2 sf" unfolding sf_def using s2(3) False b late by (intro give_up) auto
    from passesI(1) [OF this s2(3)] have "passes t s2 sf" by simp
    with s2(1) have "runs t s sf" by (rule rtranclp.rtrancl_into_rtrancl)
    have "R w2 sf" unfolding sf_def using s2(2) by (rule own_stage)
    obtain rc w3 where all: "pthread_cond_broadcast P (notifies q op) w2 = (rc, w3)" by (metis surj_pair)
    from broadcast_runs [OF \<open>R w2 sf\<close> _ this] obtain s' where s': "runs t sf s'" "R w3 s'"
      "sys_pc s' t = Running op (Unlock (if rc = 0 then Queue_error else Cv_error))" by (auto simp: sf_def)
    have "sys_pc sf t = Running op Fail" "\<not> ready op (sys_items sf) (sys_max sf)"
      using False b by (simp_all add: sf_def)
    then have "gives_up t op s s'" unfolding gives_up_def using \<open>runs t s sf\<close> s'(1) by blast
    moreover have "runs t s s'" using \<open>runs t s sf\<close> s'(1) by (rule rtranclp_trans)
    moreover have notified: "cv_notify_all P (notifies q op) w2 = Some (if rc = 0 then Inr () else
        Inl (Thrown (condition_variable_exception (strerror P) ''notify_all failed.'' rc)), w3)"
      using all by (auto simp: cv_notify_all_def comp_simps)
    have "w' = w3 \<and> (r = Inl (Thrown e) \<or> (\<exists>e'. r = Inl (Thrown e') \<and> is_pthread_exception e'))"
      using went_on(2) False notified by (auto simp: bind_def exception_defs split: if_splits)
    ultimately show ?thesis using s'(2,3) unfolding leaves_def ends_as_def by blast
  qed
qed

text \<open>With a waiting time.\<close>

lemma timed_call_runs:
  assumes "R w s" and "sys_pc s t = Idle" and "timed op"
    and run: "with_lock_guard (mutex_as_type P t) (q_mutex q)
      (\<lambda>lck. bind (cv_wait_for_guard_pred P t (waits_on q op) lck millis (gets p))
        (\<lambda>b. if b then act else seq (cv_notify_all P (notifies q op)) (throw e))) w = Some (r, w')"
    and p: "\<And>w. p w = ready op (q_items w) (q_max_size w)"
    and act: "\<And>w s timed_out r w'. R w s \<Longrightarrow> sys_pc s t = Running op (Test timed_out) \<Longrightarrow>
      ready op (sys_items s) (sys_max s) \<Longrightarrow> act w = Some (r, w') \<Longrightarrow> leaves R t item op (Some e) r w' s"
  shows "\<exists>s'. R w' s' \<and> sys_pc s' t = Idle \<and> ends_as t op (Some e) r (q_vars w' item) s s'"
  by (rule guarded_ends [OF assms(1,2) run])
    (auto simp: cv_wait_for_guard_pred_def intro: timed_wait_then_runs [OF _ _ assms(3) _ p act])

lemma get_timed_runs:
  assumes "R w s" and "sys_pc s t = Idle"
    and "sync_queue_get_timed P t q item wait_time w = Some (r, w')"
  shows "\<exists>s'. R w' s' \<and> sys_pc s' t = Idle
    \<and> ends_as t (Get True) (Some (queue_timeout ''synchronized_queue::get() timed out.'')) r (q_vars w' item) s s'"
  using assms(1,2)
proof (rule timed_call_runs [where p = queue_not_empty])
  show "with_lock_guard (mutex_as_type P t) (q_mutex q)
      (\<lambda>lck. bind (cv_wait_for_guard_pred P t (waits_on q (Get True)) lck wait_time (gets queue_not_empty))
        (\<lambda>b. if b then seq (take_front item) (cv_notify_one P (q_not_full_cv q))
          else seq (cv_notify_all P (notifies q (Get True))) (throw (queue_timeout
            ''synchronized_queue::get() timed out.'')))) w = Some (r, w')"
    using assms(3) by (simp add: sync_queue_get_timed_def waits_on_def notifies_def cong: if_cong)
qed (simp_all add: queue_not_empty_def take_runs)

lemma put_timed_runs:
  assumes "R w s" and "sys_pc s t = Idle"
    and "sync_queue_put_timed P t q x wait_time w = Some (r, w')"
  shows "\<exists>s'. R w' s' \<and> sys_pc s' t = Idle
    \<and> ends_as t (Put x True) (Some (queue_full ''synchronized_queue::put() timeout, queue is full.'')) r
        (q_vars w' item) s s'"
  using assms(1,2)
proof (rule timed_call_runs [where p = queue_not_full])
  show "with_lock_guard (mutex_as_type P t) (q_mutex q)
      (\<lambda>lck. bind (cv_wait_for_guard_pred P t (waits_on q (Put x True)) lck wait_time (gets queue_not_full))
        (\<lambda>b. if b then seq (push_back x) (cv_notify_one P (q_not_empty_cv q))
          else seq (cv_notify_all P (notifies q (Put x True))) (throw (queue_full
            ''synchronized_queue::put() timeout, queue is full.'')))) w = Some (r, w')"
    using assms(3) by (simp add: sync_queue_put_timed_def waits_on_def notifies_def cong: if_cong)
qed (simp_all add: queue_not_full_def push_runs)

end

end
