(* ===== verification/Sync_Queue_Calls.thy ===== *)
theory Sync_Queue_Calls
  imports Sync_Queue_Simulation
begin

text \<open>
  What a caller of the queue gets when other threads use it too: each call that ends is a run
  of the step relation and takes effect at one of its steps.  The functions of the system are
  instantiated once with threads that act: one of them puts an item whenever the caller waits
  and there is room; notifications may be made to fail.
\<close>

section \<open>A system with other threads\<close>

text \<open>The owner of the mutex, and where the threads other than the caller are.\<close>

record 'a peers =
  peer_owner :: "pthread_t option"
  peer_pc :: "pthread_t \<Rightarrow> 'a pc"

type_synonym 'a peers_world = "('a, 'a peers) queue_mem_scheme"

fun wake_kind :: "bool \<Rightarrow> 'a pc \<Rightarrow> 'a pc" where
  "wake_kind g Idle = Idle"
| "wake_kind g (Running op st) =
     (if st = Waiting \<and> is_get op = g then Running op (Woken False) else Running op st)"

abbreviation the_peers :: "'a peers_world \<Rightarrow> 'a peers" where
  "the_peers \<equiv> queue_mem.more"

definition with_peers :: "('a peers \<Rightarrow> 'a peers) \<Rightarrow> 'a peers_world \<Rightarrow> 'a peers_world" where
  "with_peers f w = queue_mem.more_update f w"

definition owned_by :: "pthread_t option \<Rightarrow> 'a peers_world \<Rightarrow> 'a peers_world" where
  "owned_by ow w = with_peers (\<lambda>k. k\<lparr>peer_owner := ow\<rparr>) w"

definition waking :: "bool \<Rightarrow> 'a peers_world \<Rightarrow> 'a peers_world" where
  "waking g w = with_peers (\<lambda>k. k\<lparr>peer_pc := (\<lambda>v. wake_kind g (peer_pc k v))\<rparr>) w"

text \<open>The peer \<open>u\<close> puts \<open>x\<close> while the caller waits.\<close>

definition may_put :: "pthread_t \<Rightarrow> 'a peers_world \<Rightarrow> bool" where
  "may_put u w \<longleftrightarrow> peer_pc (the_peers w) u = Idle \<and> has_room (q_items w) (q_max_size w)"

definition peer_puts :: "'a \<Rightarrow> 'a peers_world \<Rightarrow> 'a peers_world" where
  "peer_puts x w = waking True (w\<lparr>q_items := q_items w @ [x]\<rparr>)"

text \<open>\<open>code\<close> is what the notifications of the caller return; when it is not 0 they wake nobody.\<close>

definition peers_api :: "pthread_t \<Rightarrow> 'a \<Rightarrow> int \<Rightarrow> sync_queue \<Rightarrow> 'a peers_world cond_api" where
  "peers_api u x code q = \<lparr>strerror = ref_strerror,
     pthread_mutex_init = (\<lambda>m w. (0, w)), pthread_mutex_destroy = (\<lambda>m w. (0, w)),
     pthread_mutex_lock = (\<lambda>t m w.
       if peer_owner (the_peers w) = None then Some (0, owned_by (Some t) w) else None),
     pthread_mutex_trylock = (\<lambda>t m w.
       if peer_owner (the_peers w) = None then (0, owned_by (Some t) w) else (EBUSY, w)),
     pthread_mutex_unlock = (\<lambda>t m w. (0, owned_by None w)),
     pthread_cond_init = (\<lambda>c w. (0, w)), pthread_cond_destroy = (\<lambda>c w. (0, w)),
     pthread_cond_wait = (\<lambda>t c m w.
       Some (0, owned_by (Some t) (if may_put u w then peer_puts x w else w))),
     pthread_cond_timedwait = (\<lambda>t c m ts w.
       if may_put u w then Some (0, owned_by (Some t) (peer_puts x w))
       else Some (ETIMEDOUT, owned_by (Some t) w)),
     pthread_cond_signal = (\<lambda>c w. (code, if code = 0 then waking (c = q_not_empty_cv q) w else w)),
     pthread_cond_broadcast = (\<lambda>c w. (code, if code = 0 then waking (c = q_not_empty_cv q) w else w)),
     gettimeofday = (\<lambda>w. ((0, \<lparr>now_sec = 100, now_usec = 0\<rparr>), w))\<rparr>"

lemma peers_calls:
  "pthread_mutex_lock (peers_api u x code q) t m w =
     (if peer_owner (the_peers w) = None then Some (0, owned_by (Some t) w) else None)"
  "pthread_mutex_unlock (peers_api u x code q) t m w = (0, owned_by None w)"
  "pthread_cond_wait (peers_api u x code q) t c m w =
     Some (0, owned_by (Some t) (if may_put u w then peer_puts x w else w))"
  "pthread_cond_timedwait (peers_api u x code q) t c m ts w =
     (if may_put u w then Some (0, owned_by (Some t) (peer_puts x w))
      else Some (ETIMEDOUT, owned_by (Some t) w))"
  "pthread_cond_signal (peers_api u x code q) c w =
     (code, if code = 0 then waking (c = q_not_empty_cv q) w else w)"
  "pthread_cond_broadcast (peers_api u x code q) c w =
     (code, if code = 0 then waking (c = q_not_empty_cv q) w else w)"
  "gettimeofday (peers_api u x code q) w = ((0, \<lparr>now_sec = 100, now_usec = 0\<rparr>), w)"
  by (simp_all add: peers_api_def)

definition seen_by :: "pthread_t \<Rightarrow> 'a peers_world \<Rightarrow> 'a system \<Rightarrow> bool" where
  "seen_by t w s \<longleftrightarrow> sys_items s = q_items w \<and> sys_max s = q_max_size w
     \<and> sys_owner s = peer_owner (the_peers w) \<and> (\<forall>v. v \<noteq> t \<longrightarrow> sys_pc s v = peer_pc (the_peers w) v)"

section \<open>It runs the steps\<close>

lemma peers_fields [simp]:
  "q_items (owned_by ow w) = q_items w" "q_max_size (owned_by ow w) = q_max_size w"
  "q_vars (owned_by ow w) = q_vars w" "peer_owner (the_peers (owned_by ow w)) = ow"
  "peer_pc (the_peers (owned_by ow w)) = peer_pc (the_peers w)"
  "q_items (waking g w) = q_items w" "q_max_size (waking g w) = q_max_size w"
  "q_vars (waking g w) = q_vars w" "peer_owner (the_peers (waking g w)) = peer_owner (the_peers w)"
  "peer_pc (the_peers (waking g w)) = (\<lambda>v. wake_kind g (peer_pc (the_peers w) v))"
  by (simp_all add: owned_by_def waking_def with_peers_def)

lemma wake_everybody: "sys_pc (wake {v. waiting_for g s v} s) v = wake_kind g (sys_pc s v)"
proof (cases "sys_pc s v")
  case (Running op st)
  then show ?thesis by (cases st) (simp_all add: waiting_for_def)
qed (simp add: waiting_for_def)

text \<open>A whole call of \<open>put\<close>, undisturbed.\<close>

definition after_put :: "'a \<Rightarrow> 'a system \<Rightarrow> 'a system" where
  "after_put x s = s\<lparr>sys_items := sys_items s @ [x], sys_put := sys_put s @ [x],
     sys_pc := (\<lambda>v. wake_kind True (sys_pc s v))\<rparr>"

lemma whole_put_runs:
  assumes "sys_pc s u = Idle" and "sys_owner s = None" and "has_room (sys_items s) (sys_max s)"
    and waits: "sys_pc s t = Running op Waiting"
  shows "runs t s (after_put x s)"
proof -
  let ?op = "Put x False"
  define s1 where "s1 = goto u ?op Lock s"
  define s2 where "s2 = goto u ?op (Test False) (s1\<lparr>sys_owner := Some u\<rparr>)"
  define s3 where "s3 = goto u ?op Commit s2"
  define s4 where "s4 = goto u ?op Notify (s3\<lparr>sys_items := sys_items s3 @ [x], sys_put := sys_put s3 @ [x]\<rparr>)"
  define s5 where "s5 = goto u ?op (Unlock Returned) (wake {v. waiting_for True s4 v} s4)"
  have "t \<noteq> u" using assms(1) waits by auto
  then have pc: "sys_pc s1 t = Running op Waiting" "sys_pc s2 t = Running op Waiting"
    "sys_pc s3 t = Running op Waiting" "sys_pc s4 t = Running op Waiting"
    by (simp_all add: s4_def s3_def s2_def s1_def waits)
  have pc5: "\<forall>op. sys_pc s5 t \<noteq> Running op Commit"
    using \<open>t \<noteq> u\<close> by (simp add: s5_def pc)
  have "step s s1" unfolding s1_def using assms(1) by (rule start)
  from passesI(1) [OF this waits] have "runs t s s1" by simp
  also have "step s1 s2" unfolding s2_def by (rule lock) (simp_all add: s1_def assms)
  from passesI(1) [OF this pc(1)] have "passes t s1 s2" by simp
  also have "step s2 s3" unfolding s3_def
    by (rule test_true [where timed_out = False]) (simp_all add: s2_def s1_def assms)
  from passesI(1) [OF this pc(2)] have "passes t s2 s3" by simp
  also have "step s3 s4" unfolding s4_def by (rule push) (simp add: s3_def)
  from passesI(1) [OF this pc(3)] have "passes t s3 s4" by simp
  also have "step s4 s5" unfolding s5_def by (rule notify_one) (simp_all add: s4_def)
  from passesI(1) [OF this pc(4)] have "passes t s4 s5" by simp
  also have "step s5 (s5\<lparr>sys_owner := None, sys_pc := (sys_pc s5)(u := Idle)\<rparr>)"
    by (rule unlock) (simp add: s5_def)
  from passesI(1) [OF this refl pc5]
  have "passes t s5 (s5\<lparr>sys_owner := None, sys_pc := (sys_pc s5)(u := Idle)\<rparr>)" .
  also have "s5\<lparr>sys_owner := None, sys_pc := (sys_pc s5)(u := Idle)\<rparr> = after_put x s"
  proof -
    have "((sys_pc s5)(u := Idle)) v = wake_kind True (sys_pc s v)" for v
      using assms(1) by (simp add: s5_def wake_everybody del: wake_fields(6)) (simp add: s4_def s3_def s2_def s1_def)
    then have pc: "(sys_pc s5)(u := Idle) = (\<lambda>v. wake_kind True (sys_pc s v))" ..
    show ?thesis unfolding pc
      by (simp add: after_put_def s5_def s4_def s3_def s2_def s1_def goto_def wake_def assms(2))
  qed
  finally show ?thesis by simp
qed

text \<open>A wait of the caller: it blocks, the peer may act, it wakes up and has the mutex again.\<close>

lemma wait_round_runs:
  assumes "seen_by t w s" and pc: "sys_pc s t = Running op (Test False)"
    and not_ready: "\<not> ready op (sys_items s) (sys_max s)" and "u \<noteq> t"
  shows "may_put u w \<Longrightarrow> \<exists>s'. runs t s s' \<and> seen_by t (owned_by (Some t) (peer_puts x w)) s'
      \<and> sys_pc s' t = Running op (Test False)"
    and "\<not> may_put u w \<Longrightarrow> gone \<longrightarrow> timed op \<Longrightarrow>
      \<exists>s'. runs t s s' \<and> seen_by t (owned_by (Some t) w) s' \<and> sys_pc s' t = Running op (Test gone)"
proof -
  define s1 where "s1 = goto t op Waiting (s\<lparr>sys_owner := None\<rparr>)"
  have "step s s1" unfolding s1_def using pc not_ready by (rule wait)
  from passesI(1) [OF this pc] have s1: "runs t s s1" by auto
  have pc1: "sys_pc s1 t = Running op Waiting" by (simp add: s1_def)
  have relocks: "passes t s2 (goto t op (Test b) (s2\<lparr>sys_owner := Some t\<rparr>))"
    if "sys_pc s2 t = Running op (Woken b)" "sys_owner s2 = None" for s2 b
    by (rule passesI(1) [OF relock [OF that] that(1)]) simp
  {
    assume may: "may_put u w"
    with assms(1,4) have room: "has_room (sys_items s) (sys_max s)" and idle: "sys_pc s u = Idle"
      by (simp_all add: may_put_def seen_by_def)
    from room not_ready obtain b where op: "op = Get b" by (cases op) auto
    define s2 where "s2 = after_put x s1"
    note s1
    also have "runs t s1 s2" unfolding s2_def
      by (rule whole_put_runs [where u = u, OF _ _ _ pc1]) (use room idle assms(4) in \<open>simp_all add: s1_def\<close>)
    also have "passes t s2 (goto t op (Test False) (s2\<lparr>sys_owner := Some t\<rparr>))"
      by (rule relocks) (simp_all add: s2_def after_put_def s1_def op)
    finally show "\<exists>s'. runs t s s' \<and> seen_by t (owned_by (Some t) (peer_puts x w)) s'
      \<and> sys_pc s' t = Running op (Test False)"
      using assms(1) by (intro exI conjI) (auto simp: seen_by_def s2_def after_put_def s1_def peer_puts_def)
  }
  {
    assume "gone \<longrightarrow> timed op"
    define s2 where "s2 = goto t op (Woken gone) s1"
    have "step s1 s2"
      using \<open>gone \<longrightarrow> timed op\<close> pc1 unfolding s2_def by (cases gone) (auto intro: spurious time_out)
    from passesI(1) [OF this pc1] s1 have "runs t s s2" by simp
    also have "passes t s2 (goto t op (Test gone) (s2\<lparr>sys_owner := Some t\<rparr>))"
      by (rule relocks) (simp_all add: s2_def s1_def)
    finally show "\<exists>s'. runs t s s' \<and> seen_by t (owned_by (Some t) w) s' \<and> sys_pc s' t = Running op (Test gone)"
      using assms(1) by (intro exI conjI) (auto simp: seen_by_def s2_def s1_def)
  }
qed

text \<open>One move of the caller, a step or a failing call.\<close>

lemma one_move:
  assumes "step s s' \<or> fault s s'" and "sys_pc s t = Running op st" and "st \<noteq> Commit"
    and "seen_by t w s'" and "sys_pc s' t = p"
  shows "\<exists>s'. runs t s s' \<and> seen_by t w s' \<and> sys_pc s' t = p"
proof -
  have "passes t s s'" using assms(1-3) by (auto simp: passes_def sys_step_def)
  with assms(4,5) show ?thesis by blast
qed

lemma peers_queue_os:
  fixes q :: sync_queue
  assumes "u \<noteq> t" and "q_not_empty_cv q \<noteq> q_not_full_cv q"
  shows "queue_os (peers_api u x code q) t q item (seen_by t)"
proof
  fix w :: "'a peers_world" and s op
  assume R: "seen_by t w s"
  have stage: "seen_by t w (goto t op st s)" for st using R by (auto simp: seen_by_def)
  have wake: "seen_by t (waking (notifies q op = q_not_empty_cv q) w)
      (goto t op st (wake {v. waiting_for (\<not> is_get op) s v} s))" for st
    using R assms(2)
    by (cases op) (auto simp: seen_by_def notifies_def wake_everybody simp del: wake_fields(6))
  show "sys_items s = q_items w \<and> sys_max s = q_max_size w" using R by (simp add: seen_by_def)
  show "seen_by t (w\<lparr>q_vars := f, q_items := xs\<rparr>)
      (goto t op st (s\<lparr>sys_items := xs, sys_put := p, sys_got := g\<rparr>))" for f xs st p g
    using R by (auto simp: seen_by_def)
  show "seen_by t (set_timeout c ts w) s" for c ts
    using R by (simp add: seen_by_def set_timeout_def)
  show "\<exists>s'. runs t s s' \<and> seen_by t w' s'
      \<and> sys_pc s' t = Running op (if rc = 0 then Test False else Unlock Cv_error)"
    if "sys_pc s t = Running op (Test False)" "gettimeofday (peers_api u x code q) w = ((rc, now), w')"
    for rc now w'
    using that R by (intro exI [of _ s]) (simp add: peers_calls)
  show "\<exists>s'. runs t s s' \<and> seen_by t w' s' \<and> sys_pc s' t = (if rc = 0 then Running op (Test False) else Idle)"
    if pc: "sys_pc s t = Running op Lock"
      and c: "pthread_mutex_lock (peers_api u x code q) t (q_mutex q) w = Some (rc, w')" for rc w'
  proof -
    from c R have free: "sys_owner s = None" and "rc = 0" "w' = owned_by (Some t) w"
      by (auto simp: peers_calls seen_by_def split: if_splits)
    moreover have "seen_by t (owned_by (Some t) w) (goto t op (Test False) (s\<lparr>sys_owner := Some t\<rparr>))"
      using R by (auto simp: seen_by_def)
    with one_move [OF disjI1 [OF lock [OF pc free]] pc]
    have "\<exists>s'. runs t s s' \<and> seen_by t (owned_by (Some t) w) s' \<and> sys_pc s' t = Running op (Test False)"
      by simp
    ultimately show ?thesis by simp
  qed
  show "\<exists>s'. runs t s s' \<and> seen_by t w' s' \<and> sys_pc s' t = Running op (Test False)"
    if "sys_pc s t = Running op (Test False)" "\<not> ready op (sys_items s) (sys_max s)"
      and "pthread_cond_wait (peers_api u x code q) t (waits_on q op) (q_mutex q) w = Some (rc, w')" for rc w'
    using that(3) wait_round_runs(1) [OF R that(1,2) assms(1)]
      wait_round_runs(2) [OF R that(1,2) assms(1), where gone = False]
    by (auto simp: peers_calls split: if_splits)
  show "\<exists>s'. runs t s s' \<and> seen_by t w' s' \<and> sys_pc s' t = Running op
        (if rc = ETIMEDOUT then Test True
         else if rc = EINVAL \<or> rc = EPERM then Unlock Cv_error else Test False)"
    if "sys_pc s t = Running op (Test False)" "timed op" "\<not> ready op (sys_items s) (sys_max s)"
      and "pthread_cond_timedwait (peers_api u x code q) t (waits_on q op) (q_mutex q) ts w = Some (rc, w')"
    for ts rc w'
    using that(2,4) wait_round_runs(1) [OF R that(1,3) assms(1)]
      wait_round_runs(2) [OF R that(1,3) assms(1), where gone = True]
    by (auto simp: peers_calls ETIMEDOUT_def EINVAL_def EPERM_def split: if_splits)
  show "q_vars w' item = q_vars w item \<and> (\<exists>s'. runs t s s' \<and> seen_by t w' s'
      \<and> sys_pc s' t = Running op (Unlock (if rc = 0 then Returned else Cv_error)))"
    if pc: "sys_pc s t = Running op Notify"
      and c: "pthread_cond_signal (peers_api u x code q) (notifies q op) w = (rc, w')" for rc w'
  proof (cases "code = 0")
    case True
    have "\<exists>s'. runs t s s' \<and> seen_by t (waking (notifies q op = q_not_empty_cv q) w) s'
        \<and> sys_pc s' t = Running op (Unlock Returned)"
      by (rule one_move [OF disjI1 [OF notify_one [OF pc, of "{v. waiting_for (\<not> is_get op) s v}"]] pc _ wake])
        auto
    with c True show ?thesis by (auto simp: peers_calls)
  next
    case False
    have "\<exists>s'. runs t s s' \<and> seen_by t w s' \<and> sys_pc s' t = Running op (Unlock Cv_error)"
      by (rule one_move [OF disjI2 [OF notify_fails [OF pc]] pc _ stage]) simp_all
    with c False show ?thesis by (auto simp: peers_calls)
  qed
  show "\<exists>s'. runs t s s' \<and> seen_by t w' s'
      \<and> sys_pc s' t = Running op (Unlock (if rc = 0 then Queue_error else Cv_error))"
    if pc: "sys_pc s t = Running op Fail"
      and c: "pthread_cond_broadcast (peers_api u x code q) (notifies q op) w = (rc, w')" for rc w'
  proof (cases "code = 0")
    case True
    have "\<exists>s'. runs t s s' \<and> seen_by t (waking (notifies q op = q_not_empty_cv q) w) s'
        \<and> sys_pc s' t = Running op (Unlock Queue_error)"
      by (rule one_move [OF disjI1 [OF notify_all [OF pc]] pc _ wake]) simp_all
    with c True show ?thesis by (auto simp: peers_calls)
  next
    case False
    have "\<exists>s'. runs t s s' \<and> seen_by t w s' \<and> sys_pc s' t = Running op (Unlock Cv_error)"
      by (rule one_move [OF disjI2 [OF broadcast_fails [OF pc]] pc _ stage]) simp_all
    with c False show ?thesis by (auto simp: peers_calls)
  qed
  show "rc = 0 \<and> q_vars w' item = q_vars w item \<and> (\<exists>s'. runs t s s' \<and> seen_by t w' s' \<and> sys_pc s' t = Idle)"
    if pc: "sys_pc s t = Running op (Unlock res)"
      and c: "pthread_mutex_unlock (peers_api u x code q) t (q_mutex q) w = (rc, w')" for res rc w'
  proof -
    have "seen_by t (owned_by None w) (s\<lparr>sys_owner := None, sys_pc := (sys_pc s)(t := Idle)\<rparr>)"
      using R by (auto simp: seen_by_def)
    with one_move [OF disjI1 [OF unlock [OF pc]] pc]
    have "\<exists>s'. runs t s s' \<and> seen_by t (owned_by None w) s' \<and> sys_pc s' t = Idle" by simp
    with c show ?thesis by (auto simp: peers_calls)
  qed
qed

lemma peers_timed_queue_os:
  fixes q :: sync_queue
  assumes "u \<noteq> t" and "q_not_empty_cv q \<noteq> q_not_full_cv q"
  shows "timed_queue_os (peers_api u x code q) t q item (seen_by t)"
  using peers_queue_os [OF assms]
  by (auto simp: timed_queue_os_def timed_queue_os_axioms_def peers_calls clock_ok_def)

section \<open>Concrete runs\<close>

definition peers_queue :: sync_queue where
  "peers_queue = \<lparr>q_mutex = 1, q_not_empty_cv = 2, q_not_full_cv = 3\<rparr>"

interpretation peers: timed_queue_os "peers_api 2 (7 :: nat) code peers_queue" 1 peers_queue 0 "seen_by 1" for code
  by (rule peers_timed_queue_os) (simp_all add: peers_queue_def)

text \<open>Thread 1 uses a queue with the given items and size; nobody else is in it.\<close>

definition peers_start :: "nat list \<Rightarrow> cint \<Rightarrow> nat peers_world" where
  "peers_start xs n = \<lparr>cv_timeout = (\<lambda>_. \<lparr>tv_sec = 0, tv_nsec = 0\<rparr>), q_items = xs, q_max_size = n,
     q_vars = (\<lambda>_. 0), \<dots> = \<lparr>peer_owner = None, peer_pc = (\<lambda>_. Idle)\<rparr>\<rparr>"

definition idle_system :: "nat list \<Rightarrow> cint \<Rightarrow> nat system" where
  "idle_system xs n = \<lparr>sys_items = xs, sys_max = n, sys_owner = None, sys_pc = (\<lambda>_. Idle),
     sys_put = xs, sys_got = []\<rparr>"

lemma peers_start_seen: "seen_by 1 (peers_start xs n) (idle_system xs n)"
  by (simp add: seen_by_def peers_start_def idle_system_def)

lemma idle_system_initial: "idle_system [] n = initial n"
  by (simp add: idle_system_def initial_def)

text \<open>A reader of the empty queue waits once; meanwhile the peer puts 7.\<close>

lemma peers_get_run:
  "\<exists>w'. sync_queue_get (peers_api 2 7 0 peers_queue) 1 peers_queue 0 (peers_start [] 2) = Some (Inr (), w')
     \<and> q_vars w' 0 = 7"
proof -
  let ?w1 = "owned_by (Some 1) (peers_start [] 2)"
  let ?w2 = "owned_by (Some 1) (peer_puts 7 ?w1)"
  have may: "may_put 2 ?w1"
    by (simp add: may_put_def owned_by_def with_peers_def peers_start_def has_room_def list_size_def
        int_to_size_t_def)
  have items: "q_items ?w1 = []" "q_items ?w2 = [7]"
    by (simp_all add: peer_puts_def owned_by_def with_peers_def peers_start_def waking_def)
  have wait: "first_wait (peers_api 2 7 0 peers_queue) 1 (q_not_empty_cv peers_queue) (q_mutex peers_queue)
      queue_not_empty (Suc 0) ?w1 ?w2"
    using may items by (simp add: first_wait_Suc peers_calls queue_not_empty_def)
  have lock: "pthread_mutex_lock (peers_api 2 7 0 peers_queue) 1 (q_mutex peers_queue) (peers_start [] 2)
      = Some (0, ?w1)"
    by (simp add: peers_calls peers_start_def)
  from wait have "cv_wait_guard_pred (peers_api 2 7 0 peers_queue) 1 (q_not_empty_cv peers_queue)
      \<lparr>lg_mutex = q_mutex peers_queue\<rparr> (gets queue_not_empty) ?w1 = Some (Inr True, ?w2)"
    by (auto simp: cv_wait_guard_pred_def cv_wait_pred_iff)
  with lock items(2) show ?thesis
    by (simp add: sync_queue_get_def queue_outcomes) (auto simp: peers_calls)
qed

text \<open>A writer with a waiting time gives up when the queue stays full.\<close>

lemma peers_put_timed_run:
  "\<exists>w'. sync_queue_put_timed (peers_api 2 7 0 peers_queue) 1 peers_queue 5 100 (peers_start [3] 1) =
     Some (Inl (Thrown (queue_full ''synchronized_queue::put() timeout, queue is full.'')), w')"
proof -
  let ?P = "peers_api 2 (7 :: nat) 0 peers_queue"
  let ?w1 = "owned_by (Some 1) (peers_start [3] 1)"
  let ?w2 = "set_timeout (q_not_full_cv peers_queue) (timeout_after \<lparr>now_sec = 100, now_usec = 0\<rparr> 100) ?w1"
  have full: "\<not> queue_not_full ?w1" "\<not> queue_not_full ?w2" "\<not> may_put 2 ?w2"
    by (simp_all add: queue_not_full_def may_put_def set_timeout_def peers_start_def has_room_def
        list_size_def int_to_size_t_def owned_by_def with_peers_def)
  have clock: "gettimeofday ?P ?w1 = ((0, \<lparr>now_sec = 100, now_usec = 0\<rparr>), ?w1)"
    by (simp add: peers_calls)
  have ok: "clock_ok \<lparr>now_sec = 100, now_usec = 0\<rparr>" by (simp add: clock_ok_def)
  have "cv_wait_for_pred ?P 1 (q_not_full_cv peers_queue) (q_mutex peers_queue) 100 (gets queue_not_full) ?w1
      = Some (Inr False, owned_by (Some 1) ?w2)"
    unfolding cv_wait_for_pred_iff [OF clock clock_ok_fits [OF ok]] using full
    by (intro exI [of _ 0] exI [of _ ?w2])
      (simp add: timed_end_def peers_calls queue_not_full_def)
  moreover have "pthread_mutex_lock ?P 1 (q_mutex peers_queue) (peers_start [3] 1) = Some (0, ?w1)"
    by (simp add: peers_calls peers_start_def)
  ultimately show ?thesis
    by (simp add: sync_queue_put_timed_def queue_outcomes peers_calls) metis
qed

text \<open>A writer whose notification fails.\<close>

lemma peers_put_unnotified_run:
  "\<exists>w' e. sync_queue_put (peers_api 2 7 EINVAL peers_queue) 1 peers_queue 5 (peers_start [] 1) =
     Some (Inl (Thrown e), w') \<and> q_items w' = [5]"
proof -
  let ?P = "peers_api 2 (7 :: nat) EINVAL peers_queue"
  let ?w1 = "owned_by (Some 1) (peers_start [] 1)"
  let ?w2 = "?w1\<lparr>q_items := q_items ?w1 @ [5]\<rparr>"
  have no: "EINVAL \<noteq> 0" by (simp add: EINVAL_def)
  have "queue_not_full ?w1"
    by (simp add: queue_not_full_def peers_start_def has_room_def list_size_def int_to_size_t_def
        owned_by_def with_peers_def)
  then have "first_wait ?P 1 (q_not_full_cv peers_queue) (q_mutex peers_queue) queue_not_full 0 ?w1 ?w1"
    by simp
  moreover have "pthread_mutex_lock ?P 1 (q_mutex peers_queue) (peers_start [] 1) = Some (0, ?w1)"
    by (simp add: peers_calls peers_start_def)
  moreover have "pthread_cond_signal ?P (q_not_empty_cv peers_queue) ?w2 = (EINVAL, ?w2)"
    by (simp add: peers_calls EINVAL_def)
  moreover have "pthread_mutex_unlock ?P 1 (q_mutex peers_queue) ?w2 = (0, owned_by None ?w2)"
    by (simp add: peers_calls)
  ultimately have "\<exists>e. sync_queue_put ?P 1 peers_queue 5 (peers_start [] 1)
      = Some (Inl (Thrown e), owned_by None ?w2)"
    unfolding sync_queue_put_throws_iff using no by blast
  then show ?thesis by (fastforce simp: owned_by_def with_peers_def peers_start_def)
qed

section \<open>Properties\<close>

text \<open>C5: A call of \<open>get\<close> or \<open>put\<close> that ends is a run of all threads, even when calls of the system
  fail.  If it returns, it took effect exactly once, at one step of the run: \<open>get\<close> removed the
  front of the list and its caller has that item, \<open>put\<close> appended its item; the mutex, the waits and
  the notifications of the real method make it atomic.  If it throws, the exception is that of a
  system call, and it took effect exactly once or not at all.\<close>

theorem queue_calls_take_effect:
  assumes "queue_os P t q item R" and "R w s" and "sys_pc s t = Idle"
  shows "(sync_queue_get P t q item w = Some (r, w') \<longrightarrow>
      (\<exists>s'. R w' s' \<and> sys_pc s' t = Idle \<and> ends_as t (Get False) None r (q_vars w' item) s s'))
    \<and> (sync_queue_put P t q x w = Some (r, w') \<longrightarrow>
      (\<exists>s'. R w' s' \<and> sys_pc s' t = Idle \<and> ends_as t (Put x False) None r (q_vars w' item) s s'))"
  using queue_os.get_runs [OF assms] queue_os.put_runs [OF assms] by blast

lemma queue_calls_take_effect_witness:
  "(\<exists>s'. takes_effect 1 (Get False) (7 :: nat) (initial 2) s')
   \<and> (\<exists>s' e x. sys_items s' = [5 :: nat] \<and> ends_as 1 (Put 5 False) None (Inl (Thrown e)) x (initial 1) s')"
proof
  obtain w' where "sync_queue_get (peers_api 2 7 0 peers_queue) 1 peers_queue 0 (peers_start [] 2) = Some (Inr (), w')"
    and "q_vars w' 0 = 7" using peers_get_run by blast
  with queue_calls_take_effect [OF peers.queue_os_axioms peers_start_seen, of "[]" 2 0 "Inr ()" w']
  show "\<exists>s'. takes_effect 1 (Get False) (7 :: nat) (initial 2) s'"
    by (auto simp: idle_system_initial ends_as_def)
next
  obtain w' e where "sync_queue_put (peers_api 2 7 EINVAL peers_queue) 1 peers_queue 5 (peers_start [] 1) =
      Some (Inl (Thrown e), w')" and "q_items w' = [5]" using peers_put_unnotified_run by blast
  with queue_calls_take_effect [OF peers.queue_os_axioms peers_start_seen, of "[]" 1 EINVAL _ w' 5]
  show "\<exists>s' e x. sys_items s' = [5 :: nat] \<and> ends_as 1 (Put 5 False) None (Inl (Thrown e)) x (initial 1) s'"
    by (fastforce simp: idle_system_initial seen_by_def)
qed

text \<open>C6: On a system whose clock answers as documented a call with a waiting time that ends took
  effect likewise, or gave up: it found, with the
  mutex held and its time over, nothing in the list or no room, never changed the list, and throws
  \<open>queue_timeout\<close> or \<open>queue_full\<close>; or a call of the system failed or refused the deadline, and its
  exception goes on.\<close>

theorem queue_timed_calls_take_effect:
  assumes "timed_queue_os P t q item R" and "R w s" and "sys_pc s t = Idle"
  shows "(sync_queue_get_timed P t q item wait_time w = Some (r, w') \<longrightarrow>
      (\<exists>s'. R w' s' \<and> sys_pc s' t = Idle \<and> ends_as t (Get True)
        (Some (queue_timeout ''synchronized_queue::get() timed out.'')) r (q_vars w' item) s s'))
    \<and> (sync_queue_put_timed P t q x wait_time w = Some (r, w') \<longrightarrow>
      (\<exists>s'. R w' s' \<and> sys_pc s' t = Idle \<and> ends_as t (Put x True)
        (Some (queue_full ''synchronized_queue::put() timeout, queue is full.'')) r (q_vars w' item) s s'))"
  using timed_queue_os.get_timed_runs [OF assms] timed_queue_os.put_timed_runs [OF assms] by blast

lemma queue_timed_calls_take_effect_witness:
  "\<exists>s'. gives_up 1 (Put 5 True) (idle_system [3] 1) s'"
proof -
  let ?e = "queue_full ''synchronized_queue::put() timeout, queue is full.''"
  obtain w' where "sync_queue_put_timed (peers_api 2 7 0 peers_queue) 1 peers_queue 5 100 (peers_start [3] 1) =
      Some (Inl (Thrown ?e), w')" using peers_put_timed_run by blast
  with queue_timed_calls_take_effect [OF peers.timed_queue_os_axioms peers_start_seen, of "[3]" 1 0 _ _ w']
  obtain s' where "ends_as 1 (Put 5 True) (Some ?e) (Inl (Thrown ?e)) (q_vars w' 0) (idle_system [3] 1) s'"
    by (fastforce simp: idle_system_def)
  moreover have "\<not> is_pthread_exception ?e" by (simp add: queue_full_def)
  ultimately show ?thesis by (auto simp: ends_as_def)
qed

section \<open>The order of the items\<close>

lemma step_extends:
  "step s s' \<Longrightarrow> \<exists>xs ys. sys_got s' = sys_got s @ xs \<and> sys_put s' = sys_put s @ ys"
  by (induction rule: step.induct) auto

lemma sys_step_extends:
  "sys_step s s' \<Longrightarrow> \<exists>xs ys. sys_got s' = sys_got s @ xs \<and> sys_put s' = sys_put s @ ys"
  using step_extends by (auto simp: sys_step_def fault_fields)

lemma runs_extend:
  "sys_step\<^sup>*\<^sup>* s s' \<Longrightarrow> \<exists>xs ys. sys_got s' = sys_got s @ xs \<and> sys_put s' = sys_put s @ ys"
proof (induction rule: rtranclp_induct)
  case (step s1 s2)
  then show ?case using sys_step_extends [of s1 s2] by auto
qed simp

lemma reachable_runs: "sys_step\<^sup>*\<^sup>* s s' \<Longrightarrow> reachable_failing n s \<Longrightarrow> reachable_failing n s'"
  by (induction rule: rtranclp_induct) (auto intro: failing_step)

text \<open>The step at which \<open>get\<close> takes effect also records the item.\<close>

lemma commits_got:
  assumes "commits t (Get b) s s'"
  shows "\<exists>x. sys_items s = x # sys_items s' \<and> sys_got s' = sys_got s @ [x]"
  using assms unfolding commits_def by (auto elim!: step.cases split: if_splits)

text \<open>C7: Started in a state that the threads can reach, failing system calls included, a \<open>get\<close> that
  returns hands its caller the \<open>k\<close>-th item ever taken, which is the \<open>k\<close>-th item ever put, for a \<open>k\<close>
  not taken before the call.\<close>

theorem queue_get_in_order:
  assumes "queue_os P t q item R" and "R w s" and "reachable_failing n s" and "sys_pc s t = Idle"
    and "sync_queue_get P t q item w = Some (Inr (), w')"
  shows "\<exists>s' k. reachable_failing n s' \<and> R w' s' \<and> length (sys_got s) \<le> k \<and> k < length (sys_got s')
    \<and> sys_got s' ! k = q_vars w' item \<and> sys_put s' ! k = q_vars w' item"
proof -
  from queue_os.get_runs [OF assms(1,2,4,5)] obtain s'
    where "takes_effect t (Get False) (q_vars w' item) s s'" and R: "R w' s'" by (auto simp: ends_as_def)
  then obtain sa sb where "runs t s sa" "runs t sb s'" and c: "commits t (Get False) sa sb"
    and e: "effect (Get False) (q_vars w' item) sa sb" unfolding takes_effect_def by blast
  then have runs: "sys_step\<^sup>*\<^sup>* s sa" "sys_step\<^sup>*\<^sup>* sb s'" by (simp_all add: runs_sys_step)
  have r: "reachable_failing n sa" "reachable_failing n sb"
    using reachable_runs [OF runs(1) assms(3)] c by (auto simp: commits_def intro: failing_step step_sys_step)
  have fifo_b: "sys_put sb = sys_got sb @ sys_items sb"
    using fifo.holds_failing [OF r(2)] by (simp add: inv_fifo_def)
  obtain xs where got: "sys_got sa = sys_got s @ xs" using runs_extend [OF runs(1)] by blast
  obtain ys zs where rest: "sys_got s' = sys_got sb @ ys" "sys_put s' = sys_put sb @ zs"
    using runs_extend [OF runs(2)] by blast
  have "sys_got sb = sys_got sa @ [q_vars w' item]" using commits_got [OF c] e by auto
  with got rest fifo_b R reachable_runs [OF runs(2) r(2)] show ?thesis
    by (intro exI [of _ s'] exI [of _ "length (sys_got sa)"]) (auto simp: nth_append)
qed

lemma queue_get_in_order_witness:
  "\<exists>s' k. reachable_failing 2 s' \<and> k < length (sys_got s') \<and> sys_got s' ! k = (7 :: nat) \<and> sys_put s' ! k = 7"
proof -
  obtain w' where run: "sync_queue_get (peers_api 2 7 0 peers_queue) 1 peers_queue 0 (peers_start [] 2) =
      Some (Inr (), w')" and "q_vars w' 0 = 7" using peers_get_run by blast
  with queue_get_in_order [OF peers.queue_os_axioms peers_start_seen _ _ run, of 2]
  show ?thesis by (auto simp: idle_system_initial failing_init)
qed

end
