(* ===== verification/Read_Write_Lock.thy ===== *)
theory Read_Write_Lock
  imports Lock_Guard
begin

text \<open>
  The classes \<open>read_lock\<close> and \<open>write_lock\<close> (include/pthread/read_write_lock.hpp,
  src/read_write_lock.cpp).  \<open>write_lock\<close> derives from \<open>read_lock\<close> and hides its \<open>lock\<close> and
  \<open>try_lock\<close>; \<open>unlock\<close>, the constructor and the destructor are the base's.  Both name the
  same \<open>pthread_rwlock_t\<close>, so the object is its address.
\<close>

type_synonym rwlock = addr

section \<open>\<open>read_lock\<close>\<close>

definition read_lock_ctor :: "('w, 'z) rwlock_api_scheme \<Rightarrow> rwlock \<Rightarrow> ('w, exn, unit) comp" where
  "read_lock_ctor P l =
     bind (call (pthread_rwlock_init P l)) (\<lambda>ret_code.
       if ret_code \<noteq> 0
       then throw (read_write_lock_exception (strerror P) ''Failed to init read/write lock'' ret_code)
       else ret ())"

definition read_lock_dtor :: "('w, 'z) rwlock_api_scheme \<Rightarrow> rwlock \<Rightarrow> ('w, exn, unit) comp" where
  "read_lock_dtor P l = bind (call (pthread_rwlock_destroy P l)) (\<lambda>_. ret ())"

definition read_lock_lock ::
  "('w, 'z) rwlock_api_scheme \<Rightarrow> pthread_t \<Rightarrow> rwlock \<Rightarrow> ('w, exn, unit) comp" where
  "read_lock_lock P t l =
     bind (block (pthread_rwlock_rdlock P t l)) (\<lambda>ret_code.
       if ret_code \<noteq> 0
       then throw (read_write_lock_exception (strerror P) ''Try get read lock failed.'' ret_code)
       else ret ())"

definition read_lock_try_lock ::
  "('w, 'z) rwlock_api_scheme \<Rightarrow> pthread_t \<Rightarrow> rwlock \<Rightarrow> ('w, exn, unit) comp" where
  "read_lock_try_lock P t l =
     bind (call (pthread_rwlock_tryrdlock P t l)) (\<lambda>ret_code.
       if ret_code \<noteq> 0
       then throw (read_write_lock_exception (strerror P) ''Try get read lock failed.'' ret_code)
       else ret ())"

definition read_lock_unlock ::
  "('w, 'z) rwlock_api_scheme \<Rightarrow> pthread_t \<Rightarrow> rwlock \<Rightarrow> ('w, exn, unit) comp" where
  "read_lock_unlock P t l =
     bind (call (pthread_rwlock_unlock P t l)) (\<lambda>ret_code.
       if ret_code \<noteq> 0
       then throw (read_write_lock_exception (strerror P) ''failed to unlock read/read lock.'' ret_code)
       else ret ())"

section \<open>\<open>write_lock\<close>, also known as \<open>read_write_lock\<close>\<close>

text \<open>The constructor and destructor bodies are empty: the base class does the work.\<close>

definition write_lock_ctor :: "('w, 'z) rwlock_api_scheme \<Rightarrow> rwlock \<Rightarrow> ('w, exn, unit) comp" where
  "write_lock_ctor P l = bind (read_lock_ctor P l) (\<lambda>_. ret ())"

definition write_lock_dtor :: "('w, 'z) rwlock_api_scheme \<Rightarrow> rwlock \<Rightarrow> ('w, exn, unit) comp" where
  "write_lock_dtor P l = seq (ret ()) (read_lock_dtor P l)"

definition write_lock_lock ::
  "('w, 'z) rwlock_api_scheme \<Rightarrow> pthread_t \<Rightarrow> rwlock \<Rightarrow> ('w, exn, unit) comp" where
  "write_lock_lock P t l =
     bind (block (pthread_rwlock_wrlock P t l)) (\<lambda>ret_code.
       if ret_code \<noteq> 0
       then throw (read_write_lock_exception (strerror P) ''Try get write lock failed.'' ret_code)
       else ret ())"

definition write_lock_try_lock ::
  "('w, 'z) rwlock_api_scheme \<Rightarrow> pthread_t \<Rightarrow> rwlock \<Rightarrow> ('w, exn, unit) comp" where
  "write_lock_try_lock P t l =
     bind (call (pthread_rwlock_trywrlock P t l)) (\<lambda>ret_code.
       if ret_code \<noteq> 0
       then throw (read_write_lock_exception (strerror P) ''Try get write lock failed.'' ret_code)
       else ret ())"

text \<open>The two static types a \<open>lock_guard\<close> can be instantiated with.\<close>

definition read_lock_as_type ::
  "('w, 'z) rwlock_api_scheme \<Rightarrow> pthread_t \<Rightarrow> ('w, rwlock) mutex_type" where
  "read_lock_as_type P t = \<lparr>mt_lock = read_lock_lock P t, mt_unlock = read_lock_unlock P t\<rparr>"

definition write_lock_as_type ::
  "('w, 'z) rwlock_api_scheme \<Rightarrow> pthread_t \<Rightarrow> ('w, rwlock) mutex_type" where
  "write_lock_as_type P t = \<lparr>mt_lock = write_lock_lock P t, mt_unlock = read_lock_unlock P t\<rparr>"

lemma rwlock_as_type_simps [comp_simps, simp]:
  "mt_lock (read_lock_as_type P t) = read_lock_lock P t"
  "mt_unlock (read_lock_as_type P t) = read_lock_unlock P t"
  "mt_lock (write_lock_as_type P t) = write_lock_lock P t"
  "mt_unlock (write_lock_as_type P t) = read_lock_unlock P t"
  by (simp_all add: read_lock_as_type_def write_lock_as_type_def)

section \<open>When they succeed\<close>

lemma read_lock_lock_ok_iff:
  "read_lock_lock P t l w = Some (Inr (), w') \<longleftrightarrow> pthread_rwlock_rdlock P t l w = Some (0, w')"
  by (auto simp: read_lock_lock_def bind_def block_def split: option.splits if_splits)

lemma write_lock_lock_ok_iff:
  "write_lock_lock P t l w = Some (Inr (), w') \<longleftrightarrow> pthread_rwlock_wrlock P t l w = Some (0, w')"
  by (auto simp: write_lock_lock_def bind_def block_def split: option.splits if_splits)

lemma read_lock_try_lock_ok_iff:
  "read_lock_try_lock P t l w = Some (Inr (), w') \<longleftrightarrow> pthread_rwlock_tryrdlock P t l w = (0, w')"
  by (cases "pthread_rwlock_tryrdlock P t l w") (auto simp: read_lock_try_lock_def comp_simps)

lemma write_lock_try_lock_ok_iff:
  "write_lock_try_lock P t l w = Some (Inr (), w') \<longleftrightarrow> pthread_rwlock_trywrlock P t l w = (0, w')"
  by (cases "pthread_rwlock_trywrlock P t l w") (auto simp: write_lock_try_lock_def comp_simps)

lemma read_lock_unlock_ok_iff:
  "read_lock_unlock P t l w = Some (Inr (), w') \<longleftrightarrow> pthread_rwlock_unlock P t l w = (0, w')"
  by (cases "pthread_rwlock_unlock P t l w") (auto simp: read_lock_unlock_def comp_simps)

text \<open>Both faces keep the contract of a lock on a POSIX read-write lock.\<close>

sublocale posix_rwlock \<subseteq> reading: lockable "read_lock_as_type P t" l
    "\<lambda>w. readers w l t = 0" "\<lambda>w. readers w l t = 1" for t l
proof unfold_locales
  fix w w'
  assume "readers w l t = 0" and "mt_lock (read_lock_as_type P t) l w = Some (Inr (), w')"
  then show "readers w' l t = 1" using rdlock_acquires [of t l w w'] by (simp add: read_lock_lock_ok_iff)
next
  fix w
  assume "readers w l t = 1"
  with unlock_reader [of w l t 0] show
    "\<exists>w'. mt_unlock (read_lock_as_type P t) l w = Some (Inr (), w') \<and> readers w' l t = 0"
    by (auto simp: read_lock_unlock_ok_iff)
qed

sublocale posix_rwlock \<subseteq> writing: lockable "write_lock_as_type P t" l
    "\<lambda>w. writer w l \<noteq> Some t" "\<lambda>w. writer w l = Some t" for t l
proof unfold_locales
  fix w w'
  assume "mt_lock (write_lock_as_type P t) l w = Some (Inr (), w')"
  then show "writer w' l = Some t" using wrlock_acquires [of t l w w'] by (simp add: write_lock_lock_ok_iff)
next
  fix w
  assume "writer w l = Some t"
  from unlock_writer [OF this] obtain w'
    where "pthread_rwlock_unlock P t l w = (0, w')" "writer w' l = None" by blast
  then show
    "\<exists>w'. mt_unlock (write_lock_as_type P t) l w = Some (Inr (), w') \<and> writer w' l \<noteq> Some t"
    by (intro exI [of _ w']) (simp add: read_lock_unlock_ok_iff)
qed

context posix_rwlock
begin

lemmas guarded_write = writing.guarded_scope
lemmas guarded_read = reading.guarded_scope

text \<open>A writer excludes everybody from a non-blocking lock; readers exclude writers only.\<close>

lemma try_lock_read_cases:
  assumes "writer w l = None"
  shows "\<exists>rc w'. read_lock_try_lock P t l w = Some (if rc = 0 then Inr () else
      Inl (Thrown (read_write_lock_exception (strerror P) ''Try get read lock failed.'' rc)), w')
    \<and> writer w' l = None
    \<and> readers w' l = (if rc = 0 then (readers w l)(t := Suc (readers w l t)) else readers w l)"
proof -
  obtain rc w' where run: "pthread_rwlock_tryrdlock P t l w = (rc, w')" by (metis surj_pair)
  note shares = tryrdlock_shares [OF assms run]
  have "writer w' l = None"
  proof (cases "rc = 0")
    case True
    with shares have "readers w' l t \<noteq> 0" by simp
    with exclusive [of w' l] show ?thesis by force
  qed (use shares in simp)
  with run shares show ?thesis
    by (intro exI [of _ rc] exI [of _ w']) (auto simp: read_lock_try_lock_def comp_simps split: if_splits)
qed

lemma try_lock_read_free:
  assumes "writer w l = None" and "readers w l = (\<lambda>_. 0)"
  shows "\<exists>w'. read_lock_try_lock P t l w = Some (Inr (), w')"
  using tryrdlock_free [OF assms, of t] by (auto simp: read_lock_try_lock_ok_iff)

lemma try_lock_read_busy:
  assumes "writer w l \<noteq> None"
  shows "read_lock_try_lock P t l w =
    Some (Inl (Thrown (read_write_lock_exception (strerror P) ''Try get read lock failed.'' EBUSY)), w)"
  using tryrdlock_busy [OF assms, of t] by (simp add: read_lock_try_lock_def comp_simps)

lemma try_lock_write_free:
  assumes "writer w l = None" and "readers w l = (\<lambda>_. 0)"
  shows "\<exists>w'. write_lock_try_lock P t l w = Some (Inr (), w') \<and> writer w' l = Some t"
  using trywrlock_free [OF assms, of t] by (auto simp: write_lock_try_lock_ok_iff)

lemma try_lock_write_busy:
  assumes "writer w l \<noteq> None \<or> readers w l \<noteq> (\<lambda>_. 0)"
  shows "write_lock_try_lock P t l w =
    Some (Inl (Thrown (read_write_lock_exception (strerror P) ''Try get write lock failed.'' EBUSY)), w)"
  using trywrlock_busy [OF assms, of t] by (simp add: write_lock_try_lock_def comp_simps)

end

section \<open>Properties\<close>

text \<open>\<open>read_lock::try_lock\<close> always returns.  While a writer holds the lock it throws without an effect.
  Without a writer it shares the lock with any number of readers, the caller included, or throws
  what the system gives as a reason and leaves the holds as they are; a lock nobody holds it gets.\<close>

theorem read_try_lock_decides:
  assumes "posix_rwlock P writer readers"
  shows "if writer w l \<noteq> None then read_lock_try_lock P t l w =
      Some (Inl (Thrown (read_write_lock_exception (strerror P) ''Try get read lock failed.'' EBUSY)), w)
    else \<exists>rc w'. read_lock_try_lock P t l w = Some (if rc = 0 then Inr () else
        Inl (Thrown (read_write_lock_exception (strerror P) ''Try get read lock failed.'' rc)), w')
      \<and> writer w' l = None
      \<and> readers w' l = (if rc = 0 then (readers w l)(t := Suc (readers w l t)) else readers w l)
      \<and> (readers w l = (\<lambda>_. 0) \<longrightarrow> rc = 0)"
proof (cases "writer w l = None")
  case True
  from posix_rwlock.try_lock_read_cases [OF assms True, of t] posix_rwlock.try_lock_read_free [OF assms True, of t]
  show ?thesis using True by force
next
  case False
  with posix_rwlock.try_lock_read_busy [OF assms, of w l t] show ?thesis by simp
qed

lemma read_try_lock_decides_witness:
  "\<exists>w'. read_lock_try_lock plain_rw_api 1 7 kernel0 = Some (Inr (), w')
     \<and> readers_of (k_rw w' 7) = (\<lambda>_. 0)(1 := 1)"
  using read_try_lock_decides [OF plain_posix_rwlock, of kernel0 7 1] by (auto simp: kernel0_def)

text \<open>\<open>write_lock::try_lock\<close> always returns: it takes the lock when neither a writer nor a
  reader holds it, and throws without an effect otherwise.\<close>

theorem write_try_lock_decides:
  assumes "posix_rwlock P writer readers"
  shows "if writer w l = None \<and> readers w l = (\<lambda>_. 0)
    then \<exists>w'. write_lock_try_lock P t l w = Some (Inr (), w') \<and> writer w' l = Some t
    else write_lock_try_lock P t l w =
      Some (Inl (Thrown (read_write_lock_exception (strerror P) ''Try get write lock failed.'' EBUSY)), w)"
  using posix_rwlock.try_lock_write_free [OF assms] posix_rwlock.try_lock_write_busy [OF assms] by simp

lemma write_try_lock_decides_witness:
  "\<exists>w'. write_lock_try_lock plain_rw_api 1 7 kernel0 = Some (Inr (), w')
     \<and> writer_of (k_rw w' 7) = Some 1"
  using write_try_lock_decides [OF plain_posix_rwlock, of kernel0 7 1] by (simp add: kernel0_def)

text \<open>A scope guarded by a \<open>lock_guard<write_lock>\<close> runs its body as the writer, and however
  the body leaves the lock is given back and the outcome is the body's.\<close>

theorem write_guarded_scope:
  assumes "posix_rwlock P writer readers" and "writer w l \<noteq> Some t"
    and "write_lock_lock P t l w = Some (Inr (), w1)"
    and "body \<lparr>lg_mutex = l\<rparr> w1 = Some (r, w2)" and "writer w2 l = Some t"
    and "r \<noteq> Inl Terminated" and "r \<noteq> Inl Undefined"
  shows "writer w1 l = Some t
    \<and> (\<exists>w3. with_lock_guard (write_lock_as_type P t) l body w = Some (r, w3) \<and> writer w3 l \<noteq> Some t)"
proof -
  have lock: "mt_lock (write_lock_as_type P t) l w = Some (Inr (), w1)" using assms(3) by simp
  show ?thesis by (rule posix_rwlock.guarded_write) (rule assms lock)+
qed

lemma write_guarded_scope_witness:
  "\<exists>w3. with_lock_guard (write_lock_as_type plain_rw_api 1) 7 (\<lambda>_. throw (queue_full ''full'')) kernel0
     = Some (Inl (Thrown (queue_full ''full'')), w3) \<and> writer_of (k_rw w3 7) \<noteq> Some 1"
proof -
  have "write_lock_lock plain_rw_api 1 7 kernel0
      = Some (Inr (), kernel0\<lparr>k_rw := (k_rw kernel0)(7 := Writer 1)\<rparr>)"
    by (simp add: write_lock_lock_ok_iff ref_rw_api_def ref_wrlock_def kernel0_def kernel_put_def)
  then show ?thesis
    using write_guarded_scope [OF plain_posix_rwlock, of kernel0 7 1 _
        "\<lambda>_. throw (queue_full ''full'')"]
    by (simp add: kernel0_def)
qed

text \<open>A scope guarded by a \<open>lock_guard<read_lock>\<close> holds one read lock while its body runs, and
  however the body leaves the lock is given back and the outcome is the body's.\<close>

theorem read_guarded_scope:
  assumes "posix_rwlock P writer readers" and "readers w l t = 0"
    and "read_lock_lock P t l w = Some (Inr (), w1)"
    and "body \<lparr>lg_mutex = l\<rparr> w1 = Some (r, w2)" and "readers w2 l t = 1"
    and "r \<noteq> Inl Terminated" and "r \<noteq> Inl Undefined"
  shows "readers w1 l t = 1
    \<and> (\<exists>w3. with_lock_guard (read_lock_as_type P t) l body w = Some (r, w3) \<and> readers w3 l t = 0)"
proof -
  have lock: "mt_lock (read_lock_as_type P t) l w = Some (Inr (), w1)" using assms(3) by simp
  show ?thesis by (rule posix_rwlock.guarded_read) (rule assms lock)+
qed

lemma read_guarded_scope_witness:
  "\<exists>w3. with_lock_guard (read_lock_as_type plain_rw_api 1) 7 (\<lambda>_. ret (3 :: nat)) kernel0
     = Some (Inr 3, w3) \<and> readers_of (k_rw w3 7) 1 = 0"
proof -
  have "read_lock_lock plain_rw_api 1 7 kernel0
      = Some (Inr (), kernel0\<lparr>k_rw := (k_rw kernel0)(7 := Readers ((\<lambda>_. 0)(1 := 1)))\<rparr>)"
    by (simp add: read_lock_lock_ok_iff ref_rw_api_def ref_rdlock_def kernel0_def kernel_put_def)
  then show ?thesis
    using read_guarded_scope [OF plain_posix_rwlock, of kernel0 7 1 _ "\<lambda>_. ret (3 :: nat)"]
    by (simp add: kernel0_def)
qed

end
