(* ===== verification/Sync_Queue_Cxx98.thy ===== *)
theory Sync_Queue_Cxx98
  imports Sync_Queue_Calls Read_Write_Lock
begin

text \<open>
  The bounded queue as a compiler without lambdas builds it: the branches of
  include/pthread/sync_queue.hpp for \<open>__cplusplus < 201103L\<close>.  The waits are loops written
  out, and the maximum size is guarded by a read-write lock instead of being atomic.  The
  branch of \<open>get\<close> without a waiting time names variables that are not declared, so there is
  nothing to model of it.  The waiting loops are compared with those of the newer build.
\<close>

record sync_queue_98 = sync_queue +
  q_rwlock :: rwlock

section \<open>Operations\<close>

text \<open>
  \<open>! (flag = p) && cv.wait_for (mutex, delay) == no_timeout\<close>: the value of the flag, and of
  the condition.
\<close>

definition timed_condition ::
  "('z cv_mem_scheme, 'y) cond_api_scheme \<Rightarrow> pthread_t \<Rightarrow> condition_variable \<Rightarrow> mutex \<Rightarrow> cint
     \<Rightarrow> ('z cv_mem_scheme \<Rightarrow> bool) \<Rightarrow> ('z cv_mem_scheme, exn, bool \<times> bool) comp" where
  "timed_condition P t c m delay p =
     bind (gets p) (\<lambda>flag.
       if \<not> flag then bind (cv_wait_for P t c m delay) (\<lambda>status. ret (flag, status = no_timeout))
       else ret (flag, False))"

text \<open>\<open>while (condition) { delay = -1; }\<close>, and the flag it leaves.\<close>

definition timed_while ::
  "('z cv_mem_scheme, 'y) cond_api_scheme \<Rightarrow> pthread_t \<Rightarrow> condition_variable \<Rightarrow> mutex \<Rightarrow> cint
     \<Rightarrow> ('z cv_mem_scheme \<Rightarrow> bool) \<Rightarrow> ('z cv_mem_scheme, exn, bool) comp" where
  "timed_while P t c m wait_time p =
     bind (timed_condition P t c m wait_time p) (\<lambda>s.
       bind (while_comp snd (\<lambda>_. timed_condition P t c m (- 1) p) s) (\<lambda>s. ret (fst s)))"

definition sync_queue_get_timed_98 ::
  "(('a, 'z) queue_mem_scheme, 'y) cond_api_scheme \<Rightarrow> pthread_t \<Rightarrow> 'q sync_queue_scheme \<Rightarrow> addr \<Rightarrow> cint
     \<Rightarrow> (('a, 'z) queue_mem_scheme, exn, unit) comp" where
  "sync_queue_get_timed_98 P t q item wait_time =
     with_lock_guard (mutex_as_type P t) (q_mutex q) (\<lambda>lck.
       bind (timed_while P t (q_not_empty_cv q) (q_mutex q) wait_time queue_not_empty)
         (\<lambda>not_empty.
           if not_empty then
             seq (take_front item) (cv_notify_one P (q_not_full_cv q))
           else
             seq (cv_notify_all P (q_not_full_cv q))
               (throw (queue_timeout ''synchronized_queue::get() timed out.''))))"

definition sync_queue_put_98 ::
  "(('a, 'z) queue_mem_scheme, 'y) cond_api_scheme \<Rightarrow> pthread_t \<Rightarrow> 'q sync_queue_scheme \<Rightarrow> 'a
     \<Rightarrow> (('a, 'z) queue_mem_scheme, exn, unit) comp" where
  "sync_queue_put_98 P t q item =
     with_lock_guard (mutex_as_type P t) (q_mutex q) (\<lambda>lck.
       seq (bind (gets queue_not_full) (while_comp (\<lambda>not_full. \<not> not_full)
             (\<lambda>_. seq (cv_wait P t (q_not_full_cv q) (q_mutex q)) (gets queue_not_full))))
         (seq (push_back item)
           (cv_notify_one P (q_not_empty_cv q))))"

definition sync_queue_put_timed_98 ::
  "(('a, 'z) queue_mem_scheme, 'y) cond_api_scheme \<Rightarrow> pthread_t \<Rightarrow> 'q sync_queue_scheme \<Rightarrow> 'a \<Rightarrow> cint
     \<Rightarrow> (('a, 'z) queue_mem_scheme, exn, unit) comp" where
  "sync_queue_put_timed_98 P t q item wait_time =
     with_lock_guard (mutex_as_type P t) (q_mutex q) (\<lambda>lck.
       bind (timed_while P t (q_not_full_cv q) (q_mutex q) wait_time queue_not_full)
         (\<lambda>not_full.
           if not_full then
             seq (push_back item) (cv_notify_one P (q_not_empty_cv q))
           else
             seq (cv_notify_all P (q_not_empty_cv q))
               (throw (queue_full ''synchronized_queue::put() timeout, queue is full.''))))"

text \<open>\<open>size\<close> and \<open>max_size\<close> read under the read lock, \<open>set_max_size\<close> writes under the write lock.\<close>

definition sync_queue_size_98 ::
  "(('a, 'z) queue_mem_scheme, 'y) rwlock_api_scheme \<Rightarrow> pthread_t \<Rightarrow> sync_queue_98
     \<Rightarrow> (('a, 'z) queue_mem_scheme, exn, size_t) comp" where
  "sync_queue_size_98 R t q =
     with_lock_guard (read_lock_as_type R t) (q_rwlock q) (\<lambda>lck. gets (\<lambda>w. list_size (q_items w)))"

definition sync_queue_max_size_98 ::
  "(('a, 'z) queue_mem_scheme, 'y) rwlock_api_scheme \<Rightarrow> pthread_t \<Rightarrow> sync_queue_98
     \<Rightarrow> (('a, 'z) queue_mem_scheme, exn, size_t) comp" where
  "sync_queue_max_size_98 R t q =
     with_lock_guard (read_lock_as_type R t) (q_rwlock q) (\<lambda>lck. gets (\<lambda>w. int_to_size_t (q_max_size w)))"

definition sync_queue_set_max_size_98 ::
  "(('a, 'z) queue_mem_scheme, 'y) rwlock_api_scheme \<Rightarrow> pthread_t \<Rightarrow> sync_queue_98 \<Rightarrow> size_t
     \<Rightarrow> (('a, 'z) queue_mem_scheme, exn, unit) comp" where
  "sync_queue_set_max_size_98 R t q max_size =
     (if 0 \<le> max_size then
        with_lock_guard (write_lock_as_type R t) (q_rwlock q) (\<lambda>lck.
          modify (\<lambda>w. w\<lparr>q_max_size := ucast max_size\<rparr>))
      else throw (queue_exception ''synchronized_queue's max size must be greater then 0.''))"

text \<open>The read-write lock is constructed after the list and destroyed first.\<close>

definition sync_queue_ctor_98 ::
  "(('a, 'z) queue_mem_scheme, 'y) cond_api_scheme \<Rightarrow> (('a, 'z) queue_mem_scheme, 'x) rwlock_api_scheme
     \<Rightarrow> sync_queue_98 \<Rightarrow> cint \<Rightarrow> (('a, 'z) queue_mem_scheme, exn, unit) comp" where
  "sync_queue_ctor_98 P R q max_size =
     seq (mutex_ctor P (q_mutex q))
       (on_throw
         (seq (cv_ctor P (q_not_empty_cv q))
           (on_throw
             (seq (cv_ctor P (q_not_full_cv q))
               (on_throw
                 (seq (modify (\<lambda>w. w\<lparr>q_items := []\<rparr>))
                   (seq (write_lock_ctor R (q_rwlock q))
                     (modify (\<lambda>w. w\<lparr>q_max_size := max_size\<rparr>))))
                 (cv_dtor P (q_not_full_cv q))))
             (cv_dtor P (q_not_empty_cv q))))
         (mutex_dtor P (q_mutex q)))"

definition sync_queue_dtor_98 ::
  "(('a, 'z) queue_mem_scheme, 'y) cond_api_scheme \<Rightarrow> (('a, 'z) queue_mem_scheme, 'x) rwlock_api_scheme
     \<Rightarrow> sync_queue_98 \<Rightarrow> (('a, 'z) queue_mem_scheme, exn, unit) comp" where
  "sync_queue_dtor_98 P R q =
     seq (write_lock_dtor R (q_rwlock q))
       (seq (on_throw (cv_dtor P (q_not_full_cv q))
             (seq (cv_dtor P (q_not_empty_cv q)) (mutex_dtor P (q_mutex q))))
         (seq (on_throw (cv_dtor P (q_not_empty_cv q)) (mutex_dtor P (q_mutex q)))
           (mutex_dtor P (q_mutex q))))"

section \<open>The loop with a waiting time\<close>

text \<open>How the loop ends in a world \<open>u\<close>: unlike the newer one, it does not look again after a time-out.\<close>

definition timed_end_98 ::
  "('z cv_mem_scheme, 'y) cond_api_scheme \<Rightarrow> pthread_t \<Rightarrow> condition_variable \<Rightarrow> mutex
     \<Rightarrow> ('z cv_mem_scheme \<Rightarrow> bool) \<Rightarrow> 'z cv_mem_scheme \<Rightarrow> exn failure + bool \<Rightarrow> 'z cv_mem_scheme \<Rightarrow> bool" where
  "timed_end_98 P t c m p u r w' \<longleftrightarrow>
     (if p u then r = Inr True \<and> w' = u
      else \<exists>rc. pthread_cond_timedwait P t c m (cv_timeout u c) u = Some (rc, w') \<and>
        (rc = ETIMEDOUT \<and> r = Inr False
         \<or> rc = EINVAL \<and> r = Inl (Thrown (condition_variable_exception (strerror P)
               ''The value specified by abstime is invalid.'' EINVAL))
         \<or> rc = EPERM \<and> r = Inl (Thrown (condition_variable_exception (strerror P)
               ''The mutex was not owned by the current thread at the time of the call.'' EPERM))))"

lemma timed_end_compared:
  "timed_end P t c m p u r w' \<longleftrightarrow>
     (\<exists>r'. timed_end_98 P t c m p u r' w' \<and> r = (if r' = Inr False then Inr (p w') else r'))"
  by (auto simp: timed_end_def timed_end_98_def)

text \<open>One evaluation of the condition after the first, for any continuation.\<close>

abbreviation next_condition ::
  "('z cv_mem_scheme, 'y) cond_api_scheme \<Rightarrow> pthread_t \<Rightarrow> condition_variable \<Rightarrow> mutex
     \<Rightarrow> ('z cv_mem_scheme \<Rightarrow> bool) \<Rightarrow> ('z cv_mem_scheme, exn, bool \<times> bool) comp" where
  "next_condition P t c m p \<equiv> timed_condition P t c m (- 1) p"

lemma next_condition_step:
  "bind (next_condition P t c m p) L w =
     (if p w then L (True, False) w
      else case pthread_cond_timedwait P t c m (cv_timeout w c) w of
        None \<Rightarrow> None
      | Some (rc, u) \<Rightarrow>
          if rc = ETIMEDOUT then L (False, False) u
          else if rc = EINVAL then Some (Inl (Thrown (condition_variable_exception (strerror P)
              ''The value specified by abstime is invalid.'' EINVAL)), u)
          else if rc = EPERM then Some (Inl (Thrown (condition_variable_exception (strerror P)
              ''The mutex was not owned by the current thread at the time of the call.'' EPERM)), u)
          else L (False, True) u)"
  by (simp add: timed_condition_def cv_wait_for_def bind_assoc bind_timedwait timedwait_status_def
      split: option.split)

lemma first_condition_step:
  assumes "0 \<le> sint delay" and "gettimeofday P w = ((0, now), w0)" and "timeout_fits now delay" and "\<not> p w"
    and "\<not> p (set_timeout c (timeout_after now delay) w0)"
  shows "bind (timed_condition P t c m delay p) L w =
    bind (next_condition P t c m p) L (set_timeout c (timeout_after now delay) w0)"
  using assms
  by (simp add: timed_condition_def cv_wait_for_def cv_milliseconds_def bind_assoc bind_call)

lemma first_condition_fails:
  assumes "0 \<le> sint delay" and "gettimeofday P w = ((rc, now), w0)" and "\<not> p w"
    and "rc \<noteq> 0 \<or> \<not> timeout_fits now delay"
  shows "bind (timed_condition P t c m delay p) L w = cv_wait_for_pred P t c m delay (gets p) w"
  using assms
  by (simp add: timed_condition_def cv_wait_for_def cv_wait_for_pred_def cv_milliseconds_def bind_assoc bind_call)

text \<open>A negative delay leaves the member as it is, in the first round as in the others.\<close>

lemma negative_condition: "sint delay < 0 \<Longrightarrow> timed_condition P t c m delay p = next_condition P t c m p"
  by (simp add: timed_condition_def cv_wait_for_def cong: if_cong)

text \<open>The rest of the loop, given the flag and the condition; \<open>rest_fuel\<close> bounds its rounds.\<close>

definition rest_98 ::
  "('z cv_mem_scheme, 'y) cond_api_scheme \<Rightarrow> pthread_t \<Rightarrow> condition_variable \<Rightarrow> mutex
     \<Rightarrow> ('z cv_mem_scheme \<Rightarrow> bool) \<Rightarrow> bool \<times> bool \<Rightarrow> ('z cv_mem_scheme, exn, bool) comp" where
  "rest_98 P t c m p s = bind (while_comp snd (\<lambda>_. next_condition P t c m p) s) (\<lambda>s. ret (fst s))"

definition rest_fuel ::
  "nat \<Rightarrow> ('z cv_mem_scheme, 'y) cond_api_scheme \<Rightarrow> pthread_t \<Rightarrow> condition_variable \<Rightarrow> mutex
     \<Rightarrow> ('z cv_mem_scheme \<Rightarrow> bool) \<Rightarrow> bool \<times> bool \<Rightarrow> ('z cv_mem_scheme, exn, bool) comp" where
  "rest_fuel n P t c m p s = bind (while_fuel n snd (\<lambda>_. next_condition P t c m p) s) (\<lambda>s. ret (fst s))"

lemma rest_98_stop: "rest_98 P t c m p (flag, False) w = Some (Inr flag, w)"
  by (simp add: rest_98_def bind_Inr while_comp_stop)

lemma rest_98_go: "rest_98 P t c m p (flag, True) w = bind (next_condition P t c m p) (rest_98 P t c m p) w"
proof -
  have "while_comp snd (\<lambda>_. next_condition P t c m p) (flag, True)
      = bind (next_condition P t c m p) (while_comp snd (\<lambda>_. next_condition P t c m p))"
    by (rule ext) (simp add: while_comp_go)
  then show ?thesis by (simp add: rest_98_def [abs_def] bind_assoc)
qed

lemma rest_fuel_stop: "rest_fuel n P t c m p (flag, False) w = Some (r, w') \<Longrightarrow> r = Inr flag \<and> w' = w"
  by (cases n) (auto simp: rest_fuel_def bind_def)

lemma rest_fuel_go:
  "rest_fuel (Suc n) P t c m p (flag, True) w = bind (next_condition P t c m p) (rest_fuel n P t c m p) w"
  by (simp add: rest_fuel_def [abs_def] bind_assoc)

lemma rest_98_fuel:
  assumes "rest_98 P t c m p s w = Some (r, w')"
  shows "\<exists>n. rest_fuel n P t c m p s w = Some (r, w')"
  using assms unfolding rest_98_def
proof (cases rule: bind_Some_E)
  case (failed f)
  then show ?thesis unfolding rest_fuel_def while_comp_iff by (metis bind_Inl)
next
  case (went_on a u)
  then show ?thesis unfolding rest_fuel_def while_comp_iff by (metis bind_Inr)
qed

lemma rest_98_complete:
  assumes "first_timed P t c m p n w u" and "timed_end_98 P t c m p u r w'"
  shows "rest_98 P t c m p (flag, True) w = Some (r, w')"
  using assms(1)
proof (induction n arbitrary: w flag)
  case 0
  with assms(2) show ?case
    by (auto simp: rest_98_go next_condition_step rest_98_stop timed_end_98_def errno_defs split: if_splits)
next
  case (Suc n)
  then obtain rc v where "\<not> p w" "pthread_cond_timedwait P t c m (cv_timeout w c) w = Some (rc, v)"
    "goes_on rc" "first_timed P t c m p n v u" by (auto simp: first_timed_Suc)
  with Suc.IH show ?case by (simp add: rest_98_go [of P t c m p flag w] next_condition_step goes_on_def)
qed

lemma rest_98_sound:
  "rest_fuel n P t c m p (flag, True) w = Some (r, w') \<Longrightarrow>
     \<exists>k u. first_timed P t c m p k w u \<and> timed_end_98 P t c m p u r w'"
proof (induction n arbitrary: w flag)
  case 0
  then show ?case by (simp add: rest_fuel_def bind_def)
next
  case (Suc n)
  from Suc.prems have run: "bind (next_condition P t c m p) (rest_fuel n P t c m p) w = Some (r, w')"
    by (simp add: rest_fuel_go)
  show ?case
  proof (cases "p w")
    case True
    with run have "r = Inr True \<and> w' = w" by (auto simp: next_condition_step dest: rest_fuel_stop)
    with True show ?thesis by (intro exI [of _ 0] exI [of _ w]) (simp add: timed_end_98_def)
  next
    case False
    with run obtain rc u where wait: "pthread_cond_timedwait P t c m (cv_timeout w c) w = Some (rc, u)"
      by (auto simp: next_condition_step split: option.splits)
    show ?thesis
    proof (cases "goes_on rc")
      case True
      with run wait False have "rest_fuel n P t c m p (False, True) u = Some (r, w')"
        by (simp add: next_condition_step goes_on_def)
      from Suc.IH [OF this] obtain k v
        where "first_timed P t c m p k u v" "timed_end_98 P t c m p v r w'" by blast
      with wait True False show ?thesis
        by (intro exI [of _ "Suc k"] exI [of _ v]) (auto simp: first_timed_Suc)
    next
      case no: False
      with run wait False have "timed_end_98 P t c m p w r w'"
        by (auto simp: next_condition_step goes_on_def timed_end_98_def dest: rest_fuel_stop split: if_splits)
      then show ?thesis by (intro exI [of _ 0] exI [of _ w]) simp
    qed
  qed
qed

text \<open>The whole loop.\<close>

lemma timed_while_rest:
  "timed_while P t c m wait_time p w = bind (timed_condition P t c m wait_time p) (rest_98 P t c m p) w"
  by (simp add: timed_while_def rest_98_def [abs_def])

lemma rest_98_iff:
  "bind (next_condition P t c m p) (rest_98 P t c m p) w = Some (r, w') \<longleftrightarrow>
    (\<exists>n u. first_timed P t c m p n w u \<and> timed_end_98 P t c m p u r w')"
proof -
  have "bind (next_condition P t c m p) (rest_98 P t c m p) w = rest_98 P t c m p (False, True) w"
    by (simp add: rest_98_go)
  then show ?thesis using rest_98_fuel rest_98_sound rest_98_complete by metis
qed

lemma timed_while_iff:
  assumes "0 \<le> sint wait_time" and "gettimeofday P w = ((0, now), w0)" and "timeout_fits now wait_time"
    and "\<not> p w" and "\<not> p (set_timeout c (timeout_after now wait_time) w0)"
  shows "timed_while P t c m wait_time p w = Some (r, w') \<longleftrightarrow>
    (\<exists>n u. first_timed P t c m p n (set_timeout c (timeout_after now wait_time) w0) u
       \<and> timed_end_98 P t c m p u r w')"
  unfolding timed_while_rest first_condition_step [OF assms] by (rule rest_98_iff)

section \<open>Properties\<close>

text \<open>C27: the waiting loop written out for old compilers, from a world that is not ready and that
  reading the clock and storing the deadline do not make ready.  With a waiting time that is not
  negative it returns in the same world as the newer one, or throws the same, also when the clock
  cannot be read; the answer differs after a time-out only: the old loop says "not ready" without
  looking again.  With a negative one it does not read the clock, unlike the newer loop, and waits
  up to the deadline that the last wait has left in the member.\<close>

theorem cxx98_timed_wait_compared:
  assumes "gettimeofday P w = ((rc, now), w0)" and "\<not> p w"
    and "\<not> p (set_timeout c (timeout_after now wait_time) w0)"
  shows "(0 \<le> sint wait_time \<longrightarrow>
      (cv_wait_for_pred P t c m wait_time (gets p) w = Some (r, w') \<longleftrightarrow>
        (\<exists>r'. timed_while P t c m wait_time p w = Some (r', w')
           \<and> r = (if r' = Inr False then Inr (p w') else r'))))
    \<and> (sint wait_time < 0 \<longrightarrow>
      (timed_while P t c m wait_time p w = Some (r, w') \<longleftrightarrow>
        (\<exists>n u. first_timed P t c m p n w u \<and> timed_end_98 P t c m p u r w')))"
proof (intro conjI impI)
  assume pos: "0 \<le> sint wait_time"
  show "cv_wait_for_pred P t c m wait_time (gets p) w = Some (r, w') \<longleftrightarrow>
    (\<exists>r'. timed_while P t c m wait_time p w = Some (r', w') \<and> r = (if r' = Inr False then Inr (p w') else r'))"
  proof (cases "rc = 0 \<and> timeout_fits now wait_time")
    case True
    with assms(1) have c: "gettimeofday P w = ((0, now), w0)" and f: "timeout_fits now wait_time" by simp_all
    show ?thesis
      unfolding cv_wait_for_pred_iff [OF c f] timed_while_iff [OF pos c f assms(2,3)] timed_end_compared by blast
  next
    case False
    then have "rc \<noteq> 0 \<or> \<not> timeout_fits now wait_time" by blast
    from first_condition_fails [where p = p, OF pos assms(1,2) this]
    have "timed_while P t c m wait_time p w = cv_wait_for_pred P t c m wait_time (gets p) w"
      unfolding timed_while_rest by blast
    moreover have "r' \<noteq> Inr b" if "cv_wait_for_pred P t c m wait_time (gets p) w = Some (r', w')" for r' b
      using False that by (auto simp: cv_wait_for_pred_cases [OF assms(1)] split: if_splits)
    ultimately show ?thesis by auto
  qed
next
  assume "sint wait_time < 0"
  then show "timed_while P t c m wait_time p w = Some (r, w') \<longleftrightarrow>
      (\<exists>n u. first_timed P t c m p n w u \<and> timed_end_98 P t c m p u r w')"
    unfolding timed_while_rest by (simp only: negative_condition rest_98_iff)
qed

text \<open>Without a waiting time both builds of \<open>put\<close> are the same.\<close>

lemma sync_queue_put_98_same:
  "sync_queue_put_98 P t q = sync_queue_put P t (sync_queue.truncate q)"
  by (rule ext)
    (simp add: sync_queue_put_98_def sync_queue_put_def cv_wait_pred_def sync_queue.defs)

text \<open>
  A system in which a wait with a deadline always times out, but the peer puts its item before
  the caller has the mutex again.
\<close>

definition late_api :: "pthread_t \<Rightarrow> 'a \<Rightarrow> sync_queue \<Rightarrow> 'a peers_world cond_api" where
  "late_api u x q = (peers_api u x 0 q)\<lparr>pthread_cond_timedwait := (\<lambda>t c m ts w.
     Some (ETIMEDOUT, owned_by (Some t) (if may_put u w then peer_puts x w else w)))\<rparr>"

lemma late_calls:
  "pthread_mutex_lock (late_api u x q) t m w =
     (if peer_owner (the_peers w) = None then Some (0, owned_by (Some t) w) else None)"
  "pthread_mutex_unlock (late_api u x q) t m w = (0, owned_by None w)"
  "pthread_cond_timedwait (late_api u x q) t c m ts w =
     Some (ETIMEDOUT, owned_by (Some t) (if may_put u w then peer_puts x w else w))"
  "pthread_cond_signal (late_api u x q) c w = (0, waking (c = q_not_empty_cv q) w)"
  "pthread_cond_broadcast (late_api u x q) c w = (0, waking (c = q_not_empty_cv q) w)"
  "gettimeofday (late_api u x q) w = ((0, \<lparr>now_sec = 100, now_usec = 0\<rparr>), w)"
  by (simp_all add: late_api_def peers_calls)

text \<open>The caller has the mutex, has set its deadline, and has the mutex again.\<close>

definition late_locked :: "nat peers_world" where
  "late_locked = owned_by (Some 1) (peers_start [] 2)"

definition late_waiting :: "nat peers_world" where
  "late_waiting = set_timeout (q_not_empty_cv peers_queue)
     (timeout_after \<lparr>now_sec = 100, now_usec = 0\<rparr> 100) late_locked"

definition late_woken :: "nat peers_world" where
  "late_woken = owned_by (Some 1) (peer_puts 7 late_waiting)"

lemma late_worlds:
  "\<not> queue_not_empty late_locked" "\<not> queue_not_empty late_waiting" "may_put 2 late_waiting"
  "q_items late_woken = [7]"
  by (simp_all add: queue_not_empty_def may_put_def set_timeout_def peers_start_def has_room_def
      list_size_def int_to_size_t_def owned_by_def with_peers_def peer_puts_def waking_def
      late_locked_def late_waiting_def late_woken_def)

lemma late_clock:
  "gettimeofday (late_api 2 7 peers_queue) late_locked = ((0, \<lparr>now_sec = 100, now_usec = 0\<rparr>), late_locked)"
  by (simp add: late_calls)

lemma late_fits: "timeout_fits \<lparr>now_sec = 100, now_usec = 0\<rparr> millis"
  by (rule clock_ok_fits) (simp add: clock_ok_def)

lemma late_lock:
  "pthread_mutex_lock (late_api 2 7 peers_queue) 1 (q_mutex peers_queue) (peers_start [] 2)
     = Some (0, late_locked)"
  by (simp add: late_calls peers_start_def late_locked_def)

lemma late_timed_while:
  "timed_while (late_api 2 7 peers_queue) 1 (q_not_empty_cv peers_queue) (q_mutex peers_queue) 100
     queue_not_empty late_locked = Some (Inr False, late_woken)"
  unfolding timed_while_iff [OF _ late_clock late_fits late_worlds(1) late_worlds(2) [unfolded late_waiting_def], simplified]
    late_waiting_def [symmetric]
  using late_worlds
  by (intro exI [of _ 0] exI [of _ late_waiting]) (simp add: timed_end_98_def late_calls late_woken_def)

lemma cxx98_timed_wait_compared_witness:
  "cv_wait_for_pred (late_api 2 7 peers_queue) 1 (q_not_empty_cv peers_queue) (q_mutex peers_queue) 100
     (gets queue_not_empty) late_locked = Some (Inr True, late_woken)"
proof -
  have "queue_not_empty late_woken" using late_worlds(4) by (simp add: queue_not_empty_def)
  with cxx98_timed_wait_compared [OF late_clock late_worlds(1) late_worlds(2) [unfolded late_waiting_def],
      where r = "Inr True" and w' = late_woken] late_timed_while
  show ?thesis by auto
qed

text \<open>C36: \<open>get\<close> with a waiting time, built for an old compiler, can throw \<open>queue_timeout\<close> and leave an
  item in the list that was there when it woke up; the newer build takes that item.\<close>

theorem cxx98_get_misses_item:
  "\<exists>w' w''. sync_queue_get_timed_98 (late_api 2 7 peers_queue) 1 peers_queue 0 100 (peers_start [] 2)
        = Some (Inl (Thrown (queue_timeout ''synchronized_queue::get() timed out.'')), w')
     \<and> q_items w' = [7]
     \<and> sync_queue_get_timed (late_api 2 7 peers_queue) 1 peers_queue 0 100 (peers_start [] 2)
        = Some (Inr (), w'') \<and> q_vars w'' 0 = 7 \<and> q_items w'' = []"
proof -
  let ?P = "late_api 2 (7 :: nat) peers_queue"
  have new: "cv_wait_for_pred ?P 1 (q_not_empty_cv peers_queue) (q_mutex peers_queue) 100
      (gets queue_not_empty) late_locked = Some (Inr True, late_woken)"
    unfolding cv_wait_for_pred_iff [OF late_clock late_fits] late_waiting_def [symmetric] using late_worlds
    by (intro exI [of _ 0] exI [of _ late_waiting])
      (simp add: timed_end_def late_calls queue_not_empty_def late_woken_def)
  have "sync_queue_get_timed_98 ?P 1 peers_queue 0 100 (peers_start [] 2)
      = Some (Inl (Thrown (queue_timeout ''synchronized_queue::get() timed out.'')),
          owned_by None (waking (q_not_full_cv peers_queue = q_not_empty_cv peers_queue) late_woken))"
    using late_lock late_timed_while
    by (simp add: sync_queue_get_timed_98_def queue_outcomes) (simp add: late_calls, metis)
  moreover have "sync_queue_get_timed ?P 1 peers_queue 0 100 (peers_start [] 2)
      = Some (Inr (), owned_by None (waking (q_not_full_cv peers_queue = q_not_empty_cv peers_queue)
          (late_woken\<lparr>q_vars := (q_vars late_woken)(0 := 7), q_items := []\<rparr>)))"
    using late_lock new late_worlds(4)
    by (simp add: sync_queue_get_timed_def queue_outcomes) (simp add: late_calls, metis)
  ultimately show ?thesis using late_worlds(4) by simp
qed

section \<open>The maximum size and the read-write lock\<close>

text \<open>The size and the limit are read with the lock held for reading, the limit is set with it held
  for writing, and the lock is given back: exactly then the calls return.\<close>

theorem cxx98_sizes_are_guarded:
  "(sync_queue_size_98 R t q w = Some (Inr n, w') \<longleftrightarrow>
      (\<exists>w1. pthread_rwlock_rdlock R t (q_rwlock q) w = Some (0, w1) \<and> n = list_size (q_items w1)
        \<and> pthread_rwlock_unlock R t (q_rwlock q) w1 = (0, w')))
   \<and> (sync_queue_max_size_98 R t q w = Some (Inr n, w') \<longleftrightarrow>
      (\<exists>w1. pthread_rwlock_rdlock R t (q_rwlock q) w = Some (0, w1) \<and> n = int_to_size_t (q_max_size w1)
        \<and> pthread_rwlock_unlock R t (q_rwlock q) w1 = (0, w')))
   \<and> (sync_queue_set_max_size_98 R t q n w = Some (Inr (), w') \<longleftrightarrow>
      (\<exists>w1. pthread_rwlock_wrlock R t (q_rwlock q) w = Some (0, w1)
        \<and> pthread_rwlock_unlock R t (q_rwlock q) (w1\<lparr>q_max_size := ucast n\<rparr>) = (0, w')))"
  by (auto simp: sync_queue_size_98_def sync_queue_max_size_98_def sync_queue_set_max_size_98_def
      with_lock_guard_returns_iff read_lock_lock_ok_iff write_lock_lock_ok_iff read_lock_unlock_ok_iff
      gets_def modify_def)

section \<open>Lifetime\<close>

context posix_rw_lifetimes
begin

lemma write_lock_ctor_builds: "state w l = Uninitialised \<Longrightarrow> builds state {l} (write_lock_ctor R l) w"
  using rwlock_init_state [of w l]
  by (cases "pthread_rwlock_init R l w")
    (auto simp: builds_def write_lock_ctor_def read_lock_ctor_def comp_simps bind_def override_on_def fun_eq_iff)

lemma write_lock_dtor_unused:
  "state w l = Unused \<Longrightarrow>
     \<exists>w'. write_lock_dtor R l w = Some (Inr (), w') \<and> state w' = (state w)(l := Uninitialised)"
  using rwlock_destroy_unused [of w l] by (auto simp: write_lock_dtor_def read_lock_dtor_def comp_simps)

end

text \<open>The constructor of the older build leaves one more system object, or destroys what it has
  initialised; the limit is stored after the lock exists.\<close>

theorem cxx98_queue_lifetime:
  fixes P :: "(('a, 'z) queue_mem_scheme, 'y) cond_api_scheme"
  assumes L: "posix_rw_lifetimes P state R"
    and d: "distinct [q_mutex q, q_not_empty_cv q, q_not_full_cv q, q_rwlock q]"
    and mem: "\<And>w. state (w\<lparr>q_items := []\<rparr>) = state w" "\<And>w. state (w\<lparr>q_max_size := max_size\<rparr>) = state w"
  shows "((\<forall>a \<in> {q_mutex q, q_not_empty_cv q, q_not_full_cv q, q_rwlock q}. state w a = Uninitialised) \<longrightarrow>
      builds state {q_mutex q, q_not_empty_cv q, q_not_full_cv q, q_rwlock q} (sync_queue_ctor_98 P R q max_size) w)
    \<and> ((\<forall>a \<in> {q_mutex q, q_not_empty_cv q, q_not_full_cv q, q_rwlock q}. state w a = Unused) \<longrightarrow>
      (\<exists>w'. sync_queue_dtor_98 P R q w = Some (Inr (), w')
        \<and> state w' = (state w)(q_mutex q := Uninitialised, q_not_empty_cv q := Uninitialised,
            q_not_full_cv q := Uninitialised, q_rwlock q := Uninitialised)))"
proof (intro conjI impI)
  have base: "posix_lifetimes P state" using L by (rule posix_rw_lifetimes.axioms)
  show "builds state {q_mutex q, q_not_empty_cv q, q_not_full_cv q, q_rwlock q} (sync_queue_ctor_98 P R q max_size) w"
    if "\<forall>a \<in> {q_mutex q, q_not_empty_cv q, q_not_full_cv q, q_rwlock q}. state w a = Uninitialised"
    unfolding sync_queue_ctor_98_def using that d
    by (intro posix_lifetimes.mutex_then_builds [OF base] posix_lifetimes.cv_then_builds [OF base]
        builds_stores builds_seq_modify posix_rw_lifetimes.write_lock_ctor_builds [OF L] mem) (simp_all add: mem)
  assume unused: "\<forall>a \<in> {q_mutex q, q_not_empty_cv q, q_not_full_cv q, q_rwlock q}. state w a = Unused"
  then obtain w1 where 1: "write_lock_dtor R (q_rwlock q) w = Some (Inr (), w1)"
      "state w1 = (state w)(q_rwlock q := Uninitialised)"
    using posix_rw_lifetimes.write_lock_dtor_unused [OF L] by auto
  with unused d posix_lifetimes.queue_members_destroyed [OF base, of "q_mutex q" "q_not_empty_cv q" "q_not_full_cv q" w1]
  show "\<exists>w'. sync_queue_dtor_98 P R q w = Some (Inr (), w')
        \<and> state w' = (state w)(q_mutex q := Uninitialised, q_not_empty_cv q := Uninitialised,
            q_not_full_cv q := Uninitialised, q_rwlock q := Uninitialised)"
    by (auto simp: sync_queue_dtor_98_def bind_Inr fun_upd_twist)
qed

lemma cxx98_queue_lifetime_witness:
  "\<exists>w'. sync_queue_ctor_98 queue_api0 (ref_rw_api queue_mem.more queue_world_put)
       \<lparr>q_mutex = 1, q_not_empty_cv = 2, q_not_full_cv = 3, q_rwlock = 4\<rparr> 7 queue_world0 = Some (Inr (), w')
     \<and> object_of (queue_mem.more w') 4 = Unused"
proof -
  let ?R = "ref_rw_api queue_mem.more queue_world_put"
  let ?q = "\<lparr>q_mutex = 1, q_not_empty_cv = 2, q_not_full_cv = 3, q_rwlock = 4\<rparr>"
  have "map_option fst (sync_queue_ctor_98 queue_api0 ?R ?q 7 queue_world0) = Some (Inr ())" by code_simp
  moreover have "object_of (queue_mem.more queue_world0) = (\<lambda>_. Uninitialised)"
    by (simp add: object_of_def queue_world0_def kernel0_def fun_eq_iff)
  ultimately show ?thesis
    using cxx98_queue_lifetime [OF queue_world.ref_rw_lifetimes.posix_rw_lifetimes_axioms [of "\<lambda>_. None"],
        of ?q 7 queue_world0]
    by (auto simp: builds_def)
qed

end
