(* ===== verification/Timed_Calls.thy ===== *)
theory Timed_Calls
  imports Sync_Queue
begin

text \<open>
  How long a call with a waiting time lasts.  The deadline the library computes is exact, so a
  call gives up only when the time it was given is over, on a system whose clock runs forward
  and whose timed wait times out at the deadline, and provided that nobody overwrites the
  deadline meanwhile: it is a member that all waiters share.
\<close>

section \<open>A clock\<close>

text \<open>
  \<open>clock\<close> is the time in nanoseconds.  \<open>gettimeofday\<close> cuts it to microseconds; a timed wait
  that answers \<open>ETIMEDOUT\<close> has waited for its deadline.  The last law is about the program:
  no other thread waits with a deadline on the conditions \<open>C\<close>.
\<close>

locale posix_clock =
  fixes P :: "('z cv_mem_scheme, 'y) cond_api_scheme" and clock :: "'z cv_mem_scheme \<Rightarrow> int"
    and C :: "condition_variable set"
  assumes clock_read:
      "gettimeofday P w = ((0, now), w') \<Longrightarrow> clock_ok now \<and> clock w < timeval_nanos now + 1000"
    and lock_clock:
      "pthread_mutex_lock P t m w = Some (rc, w') \<Longrightarrow> clock w \<le> clock w'"
    and unlock_clock:
      "pthread_mutex_unlock P t m w = (rc, w') \<Longrightarrow> clock w \<le> clock w'"
    and broadcast_clock:
      "pthread_cond_broadcast P c w = (rc, w') \<Longrightarrow> clock w \<le> clock w'"
    and deadline_passed:
      "pthread_cond_timedwait P t c m ts w = Some (ETIMEDOUT, w') \<Longrightarrow> timespec_nanos ts \<le> clock w'"
    and deadline_kept:
      "c \<in> C \<Longrightarrow> pthread_cond_timedwait P t c m ts w = Some (rc, w') \<Longrightarrow>
         cv_timeout w' c = cv_timeout w c"

context posix_clock
begin

lemma deadline_stays:
  "c \<in> C \<Longrightarrow> timed_waits P t c m n w = Some u \<Longrightarrow> cv_timeout u c = cv_timeout w c"
proof (induction n arbitrary: w)
  case (Suc n)
  then show ?case using deadline_kept by (auto split: option.splits if_splits)
qed simp

lemma deadline_fits: "gettimeofday P w = ((0, now), w') \<Longrightarrow> timeout_fits now millis"
  using clock_read by (blast intro: clock_ok_fits)

text \<open>A wait that gives up has lasted for the delay, up to the precision of the clock.\<close>

lemma gives_up_late:
  assumes "c \<in> C" and run: "cv_wait_for_pred P t c m millis (gets p) w = Some (Inr False, w')"
  shows "clock w + sint millis * 1000000 < clock w' + 1000"
proof -
  obtain rc now w0 where time: "gettimeofday P w = ((rc, now), w0)" by (metis surj_pair)
  with run have rc: "rc = 0" by (cases "rc = 0") (auto simp: cv_milliseconds_fails)
  define v where "v = set_timeout c (timeout_after now millis) w0"
  from run obtain n u where first: "first_timed P t c m p n v u"
    and last: "timed_end P t c m p u (Inr False) w'"
    unfolding cv_wait_for_pred_iff [OF time [unfolded rc] deadline_fits [OF time [unfolded rc]]] v_def by blast
  have "cv_timeout u c = timeout_after now millis"
    using deadline_stays [OF assms(1), of t m n v u] first by (simp add: first_timed_def v_def set_timeout_def)
  moreover from last have "pthread_cond_timedwait P t c m (cv_timeout u c) u = Some (ETIMEDOUT, w')"
    by (auto simp: timed_end_def split: if_splits)
  ultimately have "timespec_nanos (timeout_after now millis) \<le> clock w'"
    using deadline_passed by metis
  moreover have "clock_ok now" and "clock w < timeval_nanos now + 1000"
    using clock_read [OF time [unfolded rc]] by blast+
  ultimately show ?thesis using timeout_after_exact by simp
qed

text \<open>The same from the guard's constructor to its destructor.\<close>

lemma guarded_gives_up_late:
  assumes "c \<in> C" and "pthread_mutex_lock P t m w = Some (0, w1)"
    and "cv_wait_for_pred P t c m millis (gets p) w1 = Some (Inr False, w2)"
    and "pthread_cond_broadcast P c' w2 = (0, w3)" and "pthread_mutex_unlock P t m w3 = (0, w')"
  shows "clock w + sint millis * 1000000 < clock w' + 1000"
  using gives_up_late [OF assms(1,3)] lock_clock [OF assms(2)] broadcast_clock [OF assms(4)]
    unlock_clock [OF assms(5)] by linarith

end

section \<open>A system that answers in time\<close>

text \<open>
  The other side: no call of the system lasts longer than \<open>latency\<close>, a timed wait is over that
  much after its deadline at the latest.  A wake-up may be spurious, but takes time, and none is
  reported when the deadline is over already.  The clock is no part of the program's memory.
\<close>

locale responsive_clock = posix_clock P clock C
  for P :: "(('a, 'z) queue_mem_scheme, 'y) cond_api_scheme" and clock and C +
  fixes latency :: int
  assumes memory_clock:
      "clock (w\<lparr>cv_timeout := d\<rparr>) = clock w" "clock (w\<lparr>q_items := xs\<rparr>) = clock w"
      "clock (w\<lparr>q_vars := v\<rparr>) = clock w"
    and clock_not_ahead: "gettimeofday P w = ((0, now), w') \<Longrightarrow> timeval_nanos now \<le> clock w"
    and quick_answers:
      "gettimeofday P w = (a, w') \<Longrightarrow> clock w \<le> clock w' \<and> clock w' \<le> clock w + latency"
      "pthread_mutex_unlock P t m w = (rc, w') \<Longrightarrow> clock w' \<le> clock w + latency"
      "pthread_cond_signal P c w = (rc, w') \<Longrightarrow> clock w' \<le> clock w + latency"
      "pthread_cond_broadcast P c w = (rc, w') \<Longrightarrow> clock w' \<le> clock w + latency"
    and wait_ends: "c \<in> C \<Longrightarrow> \<exists>rc w'. pthread_cond_timedwait P t c m ts w = Some (rc, w')"
    and wait_in_time:
      "c \<in> C \<Longrightarrow> pthread_cond_timedwait P t c m ts w = Some (rc, w') \<Longrightarrow>
         clock w' \<le> max (clock w) (timespec_nanos ts) + latency"
    and early_wake_up:
      "c \<in> C \<Longrightarrow> pthread_cond_timedwait P t c m ts w = Some (rc, w') \<Longrightarrow> goes_on rc \<Longrightarrow>
         clock w < timespec_nanos ts \<and> clock w < clock w'"

context responsive_clock
begin

lemma latency_nonneg: "0 \<le> latency"
  using quick_answers(1) [OF prod.collapse [symmetric], of undefined] by linarith

text \<open>
  The loop ends: every wake-up brings the clock closer to the deadline.  The last wake-up came
  before the deadline, so the loop is over two latencies after it.
\<close>

lemma timed_loop_ends:
  assumes c: "c \<in> C" and d: "timespec_nanos (cv_timeout w c) \<le> d" and w: "clock w \<le> d + latency"
  shows "\<exists>n u r w'. first_timed P t c m p n w u \<and> timed_end P t c m p u r w' \<and> clock w' \<le> d + 2 * latency"
  using d w
proof (induction "nat (d - clock w)" arbitrary: w rule: less_induct)
  case less
  obtain rc v where v: "pthread_cond_timedwait P t c m (cv_timeout w c) w = Some (rc, v)"
    using wait_ends [OF c] by blast
  have in_time: "clock v \<le> max (clock w) d + latency"
    using wait_in_time [OF c v] less.prems(1) by linarith
  consider "p w" | "\<not> p w" "\<not> goes_on rc" | "\<not> p w" "goes_on rc" by blast
  then show ?case
  proof cases
    case 1
    with less.prems latency_nonneg show ?thesis
      by (intro exI [of _ 0] exI [of _ w]) (auto simp: timed_end_def)
  next
    case 2
    with v have "\<exists>r. timed_end P t c m p w r v" by (auto simp: timed_end_def goes_on_def)
    moreover have "clock v \<le> d + 2 * latency" using in_time less.prems(2) latency_nonneg by linarith
    ultimately show ?thesis by (metis first_timed_0)
  next
    case 3
    have early: "clock w < d" "clock w < clock v"
      using early_wake_up [OF c v 3(2)] less.prems(1) by linarith+
    have "cv_timeout v c = cv_timeout w c" by (rule deadline_kept [OF c v])
    with early less.prems(1) in_time obtain n u r w' where
      "first_timed P t c m p n v u" "timed_end P t c m p u r w'" "clock w' \<le> d + 2 * latency"
      using less.hyps [of v] by auto
    with v 3 show ?thesis by (metis first_timed_Suc)
  qed
qed

lemma timed_wait_lasts:
  assumes "c \<in> C"
  shows "lasts clock (max 0 (sint millis * 1000000) + 3 * latency)
    (cv_wait_for_pred P t c m millis (gets p))"
proof (rule lastsI)
  fix w
  obtain rc now w0 where time: "gettimeofday P w = ((rc, now), w0)" by (metis surj_pair)
  have w0: "clock w0 \<le> clock w + latency" using quick_answers(1) [OF time] by simp
  show "\<exists>r w'. cv_wait_for_pred P t c m millis (gets p) w = Some (r, w')
    \<and> clock w' \<le> clock w + (max 0 (sint millis * 1000000) + 3 * latency)"
  proof (cases "rc = 0")
    case False
    with time w0 latency_nonneg show ?thesis by (force simp: cv_milliseconds_fails)
  next
    case True
    define v where "v = set_timeout c (timeout_after now millis) w0"
    have "clock v = clock w0" by (simp add: v_def set_timeout_def memory_clock)
    moreover have "timespec_nanos (cv_timeout v c) \<le> clock w + sint millis * 1000000"
      using timeout_after_exact [of now millis] clock_read [OF time [unfolded True]]
        clock_not_ahead [OF time [unfolded True]] by (simp add: v_def set_timeout_def)
    ultimately have "timespec_nanos (cv_timeout v c) \<le> clock w + max 0 (sint millis * 1000000) + latency"
      and "clock v \<le> clock w + max 0 (sint millis * 1000000) + latency + latency"
      using w0 latency_nonneg by linarith+
    from timed_loop_ends [OF assms this, of t m p]
    obtain n u r w' where "first_timed P t c m p n v u" "timed_end P t c m p u r w'"
      "clock w' \<le> clock w + max 0 (sint millis * 1000000) + latency + 2 * latency" by blast
    then show ?thesis
      unfolding cv_wait_for_pred_iff [OF time [unfolded True] deadline_fits [OF time [unfolded True]]] v_def
      by (force simp: algebra_simps)
  qed
qed

text \<open>The parts of the methods besides the wait.\<close>

lemma notify_lasts: "lasts clock latency (cv_notify_one P c)" "lasts clock latency (cv_notify_all P c)"
proof -
  have "lasts clock (latency + 0) (cv_notify_one P c)" "lasts clock (latency + 0) (cv_notify_all P c)"
    unfolding cv_notify_one_def cv_notify_all_def
    by (intro lasts_bind lasts_call; simp add: quick_answers(3,4) [OF prod.collapse [symmetric]] lasts_ret lasts_fail)+
  then show "lasts clock latency (cv_notify_one P c)" "lasts clock latency (cv_notify_all P c)" by simp_all
qed

lemma unlock_lasts: "lasts clock latency (mutex_unlock P t m)"
proof -
  have "lasts clock (latency + 0) (mutex_unlock P t m)"
    unfolding mutex_unlock_def
    by (intro lasts_bind lasts_call; simp add: quick_answers(2) [OF prod.collapse [symmetric]] lasts_ret lasts_fail)
  then show ?thesis by simp
qed

lemma take_front_lasts: "lasts clock 0 (take_front item)"
  by (rule lastsI) (auto simp: take_front_def comp_simps modify_def memory_clock split: list.split)

lemma push_back_lasts: "lasts clock 0 (push_back x)"
  by (rule lastsI) (simp add: push_back_def modify_def memory_clock)

text \<open>The scope that the guard of a method opens, once the mutex is locked.\<close>

abbreviation call_bound :: "cint \<Rightarrow> int" where
  "call_bound wait_time \<equiv> max 0 (sint wait_time * 1000000) + 5 * latency"

lemma guarded_lasts:
  assumes body: "\<And>g. lasts clock d (body g)" and lock: "pthread_mutex_lock P t m w = Some (rc, w1)"
    and d: "0 \<le> d"
  shows "\<exists>r w'. with_lock_guard (mutex_as_type P t) m body w = Some (r, w')
    \<and> clock w' \<le> clock w1 + (d + latency)"
proof (cases "rc = 0")
  case False
  with lock d latency_nonneg show ?thesis
    by (simp add: with_lock_guard_lock_fails mutex_lock_def bind_def block_def)
next
  case True
  with lock have "mutex_lock P t m w = Some (Inr (), w1)" by (simp add: mutex_lock_ok_iff)
  moreover have "lasts clock (d + latency) (scoped (body \<lparr>lg_mutex = m\<rparr>) (mutex_unlock P t m))"
    using body unlock_lasts latency_nonneg by (rule lasts_scoped)
  ultimately show ?thesis by (simp add: with_lock_guard_run lasts_def)
qed

text \<open>The wait, then the access to the list and a notification, or a broadcast and a throw.\<close>

lemma timed_body_lasts:
  fixes access :: "(('a, 'z) queue_mem_scheme, exn, unit) comp"
  assumes "c \<in> C" and "lasts clock 0 access"
  shows "lasts clock (max 0 (sint wait_time * 1000000) + 3 * latency + latency)
    (bind (cv_wait_for_guard_pred P t c lck wait_time (gets p)) (\<lambda>ready.
       if ready then seq access (cv_notify_one P c') else seq (cv_notify_all P c') (throw e)))"
proof -
  have "lasts clock (0 + latency) (seq access (cv_notify_one P c'))"
    using assms(2) latency_nonneg by (intro lasts_bind notify_lasts)
  moreover have "lasts clock (latency + 0) (seq (cv_notify_all P c') (throw e :: (_, _, unit) comp))"
    by (intro lasts_bind notify_lasts lasts_fail) simp_all
  ultimately show ?thesis
    unfolding cv_wait_for_guard_pred_def
    by (intro lasts_bind timed_wait_lasts assms) (use latency_nonneg in simp_all)
qed

lemma timed_calls_last:
  assumes "pthread_mutex_lock P t (q_mutex q) w = Some (rc, w1)"
  shows "q_not_empty_cv q \<in> C \<Longrightarrow> \<exists>r w'. sync_queue_get_timed P t q item wait_time w = Some (r, w')
      \<and> clock w' \<le> clock w1 + call_bound wait_time"
    and "q_not_full_cv q \<in> C \<Longrightarrow> \<exists>r w'. sync_queue_put_timed P t q x wait_time w = Some (r, w')
      \<and> clock w' \<le> clock w1 + call_bound wait_time"
  unfolding sync_queue_get_timed_def sync_queue_put_timed_def
  using guarded_lasts [OF timed_body_lasts [OF _ take_front_lasts] assms]
    guarded_lasts [OF timed_body_lasts [OF _ push_back_lasts] assms] latency_nonneg
  by (simp_all add: algebra_simps)

end

section \<open>A system with a clock\<close>

text \<open>
  Nobody else is there: a timed wait lasts until the deadline, but wakes up for nothing every
  \<open>nap\<close> nanoseconds.  Every call takes a while.  The clock works until 2262.
\<close>

record clock_part =
  ck_now :: int

type_synonym clock_world = "(nat, clock_part) queue_mem_scheme"

definition clock_of :: "clock_world \<Rightarrow> int" where
  "clock_of w = ck_now (queue_mem.more w)"

definition clock_time :: "int \<Rightarrow> timeval" where
  "clock_time n = \<lparr>now_sec = word_of_int (n div 1000000000),
     now_usec = word_of_int (n mod 1000000000 div 1000)\<rparr>"

definition tick :: "int \<Rightarrow> clock_world \<Rightarrow> clock_world" where
  "tick d = queue_mem.more_update (\<lambda>k. k\<lparr>ck_now := ck_now k + d\<rparr>)"

lemma tick_simps [simp]:
  "clock_of (tick d w) = clock_of w + d" "q_items (tick d w) = q_items w" "cv_timeout (tick d w) = cv_timeout w"
  "q_max_size (tick d w) = q_max_size w"
  by (simp_all add: tick_def clock_of_def)

lemma clock_of_memory [simp]:
  "clock_of (w\<lparr>cv_timeout := d\<rparr>) = clock_of w" "clock_of (w\<lparr>q_items := xs\<rparr>) = clock_of w"
  "clock_of (w\<lparr>q_vars := v\<rparr>) = clock_of w"
  by (simp_all add: clock_of_def)

definition nap_or_time_out :: "int \<Rightarrow> timespec \<Rightarrow> clock_world \<Rightarrow> int \<times> clock_world" where
  "nap_or_time_out nap ts w = (let rest = timespec_nanos ts - clock_of w in
     if max 1 nap < rest then (0, tick (max 1 nap) w) else (ETIMEDOUT, tick (max 0 rest + 30) w))"

definition clock_api :: "int \<Rightarrow> clock_world cond_api" where
  "clock_api nap = \<lparr>strerror = ref_strerror,
     pthread_mutex_init = (\<lambda>m w. (0, w)), pthread_mutex_destroy = (\<lambda>m w. (0, w)),
     pthread_mutex_lock = (\<lambda>t m w. Some (0, tick 50 w)), pthread_mutex_trylock = (\<lambda>t m w. (0, w)),
     pthread_mutex_unlock = (\<lambda>t m w. (0, tick 50 w)),
     pthread_cond_init = (\<lambda>c w. (0, w)), pthread_cond_destroy = (\<lambda>c w. (0, w)),
     pthread_cond_wait = (\<lambda>t c m w. None),
     pthread_cond_timedwait = (\<lambda>t c m ts w. Some (nap_or_time_out nap ts w)),
     pthread_cond_signal = (\<lambda>c w. (0, tick 70 w)), pthread_cond_broadcast = (\<lambda>c w. (0, tick 100 w)),
     gettimeofday = (\<lambda>w. if 0 \<le> clock_of w \<and> clock_of w < 2 ^ 63
       then ((0, clock_time (clock_of w)), tick 40 w) else ((- 1, clock_time 0), w))\<rparr>"

lemma clock_time_exact:
  assumes "0 \<le> n" and "n < 2 ^ 63"
  shows "clock_ok (clock_time n) \<and> n < timeval_nanos (clock_time n) + 1000 \<and> timeval_nanos (clock_time n) \<le> n"
proof -
  have s: "0 \<le> n div 1000000000" "n div 1000000000 < 2 ^ 62" using assms by simp_all
  have u: "0 \<le> n mod 1000000000 div 1000" "n mod 1000000000 div 1000 < 1000000"
    by (simp_all add: pos_imp_zdiv_nonneg_iff)
  have "sint (now_sec (clock_time n)) = n div 1000000000"
    using s by (simp add: clock_time_def sint_of_int)
  moreover have "sint (now_usec (clock_time n)) = n mod 1000000000 div 1000"
    using u by (simp add: clock_time_def sint_of_int)
  moreover have "n < n div 1000000000 * 1000000000 + n mod 1000000000 div 1000 * 1000 + 1000"
    and "n div 1000000000 * 1000000000 + n mod 1000000000 div 1000 * 1000 \<le> n"
    using div_mult_mod_eq [of n 1000000000] div_mult_mod_eq [of "n mod 1000000000" 1000]
      pos_mod_bound [of 1000 "n mod 1000000000"] pos_mod_sign [of 1000 "n mod 1000000000"] by linarith+
  ultimately show ?thesis using s u by (simp add: clock_ok_def timeval_nanos_def)
qed

interpretation clock: responsive_clock "clock_api nap" clock_of UNIV 100 for nap
proof unfold_locales
  show "gettimeofday (clock_api nap) w = ((0, now), w') \<Longrightarrow>
      clock_ok now \<and> clock_of w < timeval_nanos now + 1000" for w now w'
    using clock_time_exact [of "clock_of w"] by (auto simp: clock_api_def split: if_splits)
  show "gettimeofday (clock_api nap) w = ((0, now), w') \<Longrightarrow> timeval_nanos now \<le> clock_of w" for w now w'
    using clock_time_exact [of "clock_of w"] by (auto simp: clock_api_def split: if_splits)
qed (auto simp: clock_api_def nap_or_time_out_def Let_def goes_on_def split: if_splits)

definition clock_start :: clock_world where
  "clock_start = \<lparr>cv_timeout = (\<lambda>_. \<lparr>tv_sec = 0, tv_nsec = 0\<rparr>), q_items = [], q_max_size = 1,
     q_vars = (\<lambda>_. 0), \<dots> = \<lparr>ck_now = 5\<rparr>\<rparr>"

lemma clock_of_start [simp]: "clock_of clock_start = 5"
  by (simp add: clock_of_def clock_start_def)

section \<open>Properties\<close>

text \<open>C8: \<open>get\<close> with a waiting time throws \<open>queue_timeout\<close>, and \<open>put\<close> with a waiting time
  \<open>queue_full\<close>, only after that time, up to the microsecond the clock is cut to, if nobody else
  uses the deadlines of the two conditions meanwhile.\<close>

theorem queue_gives_up_late:
  assumes "posix_clock P clock {q_not_empty_cv q, q_not_full_cv q}"
    and "sync_queue_get_timed P t q item wait_time w =
        Some (Inl (Thrown (queue_timeout ''synchronized_queue::get() timed out.'')), w')
      \<or> sync_queue_put_timed P t q x wait_time w =
        Some (Inl (Thrown (queue_full ''synchronized_queue::put() timeout, queue is full.'')), w')"
  shows "clock w + sint wait_time * 1000000 < clock w' + 1000"
  using assms(2)
proof
  assume "sync_queue_get_timed P t q item wait_time w =
      Some (Inl (Thrown (queue_timeout ''synchronized_queue::get() timed out.'')), w')"
  then show ?thesis
    unfolding get_timed_gives_up_iff
    by (elim exE conjE) (rule posix_clock.guarded_gives_up_late [OF assms(1), of "q_not_empty_cv q"]; simp)
next
  assume "sync_queue_put_timed P t q x wait_time w =
      Some (Inl (Thrown (queue_full ''synchronized_queue::put() timeout, queue is full.'')), w')"
  then show ?thesis
    unfolding put_timed_gives_up_iff
    by (elim exE conjE) (rule posix_clock.guarded_gives_up_late [OF assms(1), of "q_not_full_cv q"]; simp)
qed

text \<open>On the concrete system a reader of the empty queue waits for 20 milliseconds and gives up.\<close>

lemma clock_get_run:
  "\<exists>w'. sync_queue_get_timed (clock_api 1000000000) 1 \<lparr>q_mutex = 1, q_not_empty_cv = 2, q_not_full_cv = 3\<rparr> 0 20 clock_start
     = Some (Inl (Thrown (queue_timeout ''synchronized_queue::get() timed out.'')), w')"
proof -
  let ?P = "clock_api 1000000000" and ?w = "tick 50 clock_start"
  have start: "clock_of ?w = 55" by simp
  then have now: "gettimeofday ?P ?w = ((0, clock_time 55), tick 40 ?w)" by (simp add: clock_api_def)
  have clock_ok_55: "clock_ok (clock_time 55)" using clock_time_exact [of 55] by simp
  define v where "v = set_timeout 2 (timeout_after (clock_time 55) 20) (tick 40 ?w)"
  have v: "clock_of v = 95" "\<not> queue_not_empty v"
    using start by (simp_all add: v_def set_timeout_def queue_not_empty_def clock_start_def)
  have "timespec_nanos (cv_timeout v 2) \<le> 55 + 20000000"
    using timeout_after_exact [of "clock_time 55" 20] clock_time_exact [of 55]
    by (simp add: v_def set_timeout_def)
  with v(1) obtain d where wait:
    "pthread_cond_timedwait ?P 1 2 1 (cv_timeout v 2) v = Some (ETIMEDOUT, tick d v)"
    by (simp add: clock_api_def nap_or_time_out_def Let_def)
  with v(2) have "timed_end ?P 1 2 1 queue_not_empty v (Inr False) (tick d v)"
    by (simp add: timed_end_def queue_not_empty_def)
  then have "cv_wait_for_pred ?P 1 2 1 20 (gets queue_not_empty) ?w = Some (Inr False, tick d v)"
    unfolding cv_wait_for_pred_iff [OF now clock_ok_fits [OF clock_ok_55]] v_def [symmetric]
    by (intro exI [of _ 0] exI [of _ v]) simp
  then show ?thesis
    unfolding get_timed_gives_up_iff by (simp add: clock_api_def)
qed

lemma queue_gives_up_late_witness:
  "\<exists>w'. sync_queue_get_timed (clock_api 1000000000) 1 \<lparr>q_mutex = 1, q_not_empty_cv = 2, q_not_full_cv = 3\<rparr> 0 20 clock_start
     = Some (Inl (Thrown (queue_timeout ''synchronized_queue::get() timed out.'')), w')
     \<and> 20000000 < clock_of w' + 995"
proof -
  let ?q = "\<lparr>q_mutex = 1, q_not_empty_cv = 2, q_not_full_cv = 3\<rparr>"
  obtain w' where run: "sync_queue_get_timed (clock_api 1000000000) 1 ?q 0 20 clock_start
     = Some (Inl (Thrown (queue_timeout ''synchronized_queue::get() timed out.'')), w')"
    using clock_get_run by blast
  have "posix_clock (clock_api 1000000000) clock_of {q_not_empty_cv ?q, q_not_full_cv ?q}"
    using clock.posix_clock_axioms by (simp add: posix_clock_def)
  from queue_gives_up_late [OF this disjI1 [OF run]] have "clock_of clock_start + 20000000 < clock_of w' + 1000"
    by simp
  with run show ?thesis by auto
qed

text \<open>C9: The calls with a waiting time end, and in time, if nobody else uses the deadlines of the two
  conditions meanwhile (another waiter would overwrite them).  On a system that answers within a
  latency and whose clock only runs forward, \<open>get\<close> and \<open>put\<close> with a waiting time come back, by a
  value or by an exception, at most the waiting time and five latencies after the mutex was given to
  them, however often they are woken up for nothing; a negative waiting time counts as none.\<close>

theorem queue_timed_calls_end_in_time:
  assumes "responsive_clock P clock {q_not_empty_cv q, q_not_full_cv q} latency"
    and "pthread_mutex_lock P t (q_mutex q) w = Some (rc, w1)"
  shows "(\<exists>r w'. sync_queue_get_timed P t q item wait_time w = Some (r, w')
      \<and> clock w' \<le> clock w1 + (max 0 (sint wait_time * 1000000) + 5 * latency))
    \<and> (\<exists>r w'. sync_queue_put_timed P t q x wait_time w = Some (r, w')
      \<and> clock w' \<le> clock w1 + (max 0 (sint wait_time * 1000000) + 5 * latency))"
  using responsive_clock.timed_calls_last [OF assms] by simp

text \<open>A \<open>get\<close> that is woken up every five milliseconds comes back within 20 milliseconds and 500
  nanoseconds.\<close>

lemma queue_timed_calls_end_in_time_witness:
  "\<exists>r w'. sync_queue_get_timed (clock_api 5000000) 1 \<lparr>q_mutex = 1, q_not_empty_cv = 2, q_not_full_cv = 3\<rparr> 0 20
      clock_start = Some (r, w') \<and> clock_of w' \<le> 55 + 20000500"
proof -
  let ?q = "\<lparr>q_mutex = 1, q_not_empty_cv = 2, q_not_full_cv = 3\<rparr>"
  have "responsive_clock (clock_api 5000000) clock_of {q_not_empty_cv ?q, q_not_full_cv ?q} 100"
    using clock.responsive_clock_axioms
    by (simp add: responsive_clock_def responsive_clock_axioms_def posix_clock_def)
  moreover have "pthread_mutex_lock (clock_api 5000000) 1 (q_mutex ?q) clock_start = Some (0, tick 50 clock_start)"
    by (simp add: clock_api_def)
  ultimately show ?thesis
    using queue_timed_calls_end_in_time [of "clock_api 5000000" clock_of ?q 100 1 clock_start 0 "tick 50 clock_start" 0 20]
    by simp
qed

end
