(* ===== verification/Thread.thy ===== *)
theory Thread
  imports Posix_Reference
begin

text \<open>
  Threads (include/pthread/thread.hpp, src/thread.cpp): the class \<open>thread\<close>, the functions of
  \<open>this_thread\<close> and the start routine.  Objects live in a memory, because a thread object
  keeps a pointer into itself, is swapped with another by reference and is owned by an
  \<open>abstract_thread\<close> through a pointer.  The operating system, with all that the other threads
  do, is the last field of the memory; the objects themselves are touched by the calling
  thread only, the class has no synchronisation.
\<close>

section \<open>Objects\<close>

datatype thread_status = not_a_thread | a_thread

text \<open>\<open>_attr_ptr\<close> is null or the address of the thread object whose \<open>_attr\<close> it points to.\<close>

record 'at thread =
  th_thread :: pthread_t
  th_attr :: 'at
  th_attr_ptr :: "addr option"
  th_status :: thread_status

text \<open>The two members of \<open>abstract_thread\<close>: the owned thread, or null, and the stack size.\<close>

record abstract_thread =
  ab_thread :: "addr option"
  ab_stack_size :: size_t

text \<open>
  The memory: what lies at the addresses in use, the addresses \<open>new\<close> has not given out yet,
  the text written to \<open>std::cerr\<close> or \<open>stdout\<close>, and the operating system.
\<close>

record ('at, 'w) memory =
  mem_threads :: "addr \<Rightarrow> 'at thread option"
  mem_abstract :: "addr \<Rightarrow> abstract_thread option"
  mem_next :: addr
  mem_output :: "string list"
  mem_os :: 'w

type_synonym ('at, 'w, 'a) thread_comp = "(('at, 'w) memory, exn, 'a) comp"

text \<open>Calls of the system; access to an object, undefined where there is none.\<close>

definition sys :: "('w \<Rightarrow> 'a \<times> 'w) \<Rightarrow> ('at, 'w, 'a) thread_comp" where
  "sys f = call (\<lambda>m. case f (mem_os m) of (r, os) \<Rightarrow> (r, m\<lparr>mem_os := os\<rparr>))"

definition sys_block :: "('w \<Rightarrow> ('a \<times> 'w) option) \<Rightarrow> ('at, 'w, 'a) thread_comp" where
  "sys_block f = block (\<lambda>m. case f (mem_os m) of None \<Rightarrow> None | Some (r, os) \<Rightarrow> Some (r, m\<lparr>mem_os := os\<rparr>))"

definition the_thread :: "addr \<Rightarrow> ('at, 'w, 'at thread) thread_comp" where
  "the_thread p = bind (gets (\<lambda>m. mem_threads m p)) (\<lambda>x. case x of
       None \<Rightarrow> undefined_behaviour
     | Some o' \<Rightarrow> ret o')"

definition store_thread :: "addr \<Rightarrow> 'at thread option \<Rightarrow> ('at, 'w, unit) thread_comp" where
  "store_thread p x = modify (\<lambda>m. m\<lparr>mem_threads := (mem_threads m)(p := x)\<rparr>)"

definition update_thread :: "addr \<Rightarrow> ('at thread \<Rightarrow> 'at thread) \<Rightarrow> ('at, 'w, unit) thread_comp" where
  "update_thread p f = bind (the_thread p) (\<lambda>x. store_thread p (Some (f x)))"

definition print_line :: "string \<Rightarrow> ('at, 'w, unit) thread_comp" where
  "print_line s = modify (\<lambda>m. m\<lparr>mem_output := mem_output m @ [s]\<rparr>)"

text \<open>A call that gets \<open>_attr_ptr\<close>: it works on the attributes the pointer leads to.\<close>

definition attr_call ::
  "('at \<Rightarrow> 'w \<Rightarrow> (int \<times> 'at) \<times> 'w) \<Rightarrow> addr \<Rightarrow> ('at, 'w, int) thread_comp" where
  "attr_call f this =
     bind (the_thread this) (\<lambda>x. case th_attr_ptr x of
         None \<Rightarrow> undefined_behaviour
       | Some p \<Rightarrow> bind (the_thread p) (\<lambda>y.
           bind (sys (f (th_attr y))) (\<lambda>(rc, attr).
             seq (update_thread p (\<lambda>z. z\<lparr>th_attr := attr\<rparr>)) (ret rc))))"

section \<open>\<open>this_thread\<close>\<close>

text \<open>
  \<open>millis * 1000\<close> is an \<open>int\<close> product, undefined when it does not fit; the results are
  converted to the unsigned parameter types.
\<close>

definition sleep_for :: "('at, 'w, 'z) thread_api_scheme \<Rightarrow> cint \<Rightarrow> ('at, 'w, unit) thread_comp" where
  "sleep_for P millis =
     (if sint millis < 1000 then
        if sint millis * 1000 < - 2147483648 then undefined_behaviour
        else bind (sys (usleep P (millis * 1000))) (\<lambda>rc.
          if rc \<noteq> 0 then
            bind (gets (\<lambda>m. errno P (mem_os m))) (\<lambda>e.
              throw (pthread_exception (strerror P) ''in sleep_for, call to usleep failed. '' e))
          else ret ())
      else if sint millis \<ge> 1000 then
        bind (sys (sleep P (sdiv_word millis 1000))) (\<lambda>rc.
          if rc \<noteq> 0 then
            bind (gets (\<lambda>m. errno P (mem_os m))) (\<lambda>e.
              throw (pthread_exception (strerror P) ''in sleep_for, call to sleep failed. '' e))
          else ret ())
      else
        throw (pthread_exception (strerror P)
          (''sleep_for received an unexpected duration value '' @ ''('' @ to_string_int (sint millis) @ '')'')
          pthread_exception_default_error))"

text \<open>\<open>pthread_self\<close> returns the calling thread, which every method takes as \<open>t\<close>.\<close>

definition this_thread_get_id :: "pthread_t \<Rightarrow> ('at, 'w, pthread_t) thread_comp" where
  "this_thread_get_id t = ret t"

section \<open>\<open>thread\<close>\<close>

text \<open>The object exists once its members are initialised and the constructor has returned.\<close>

definition thread_default_ctor :: "('at, 'w, 'z) thread_api_scheme \<Rightarrow> addr \<Rightarrow> ('at, 'w, unit) thread_comp" where
  "thread_default_ctor P this =
     bind (sys (pthread_attr_init P)) (\<lambda>(rc, attr).
       if rc \<noteq> 0 then
         throw (thread_exception (strerror P) ''pthread_attr_init call in pthread::pthread() failed.'' rc)
       else store_thread this (Some \<lparr>th_thread = 0, th_attr = attr, th_attr_ptr = Some this,
              th_status = not_a_thread\<rparr>))"

text \<open>The destructor never throws; after its body the object is gone.\<close>

definition thread_dtor :: "('at, 'w, 'z) thread_api_scheme \<Rightarrow> addr \<Rightarrow> ('at, 'w, unit) thread_comp" where
  "thread_dtor P this =
     bind (the_thread this) (\<lambda>x.
       seq (if th_attr_ptr x \<noteq> None then
              bind (sys (pthread_attr_destroy P (th_attr x))) (\<lambda>(rc, attr).
                if rc \<noteq> 0 then
                  print_line (''pthread_attr_destroy called in pthread::~thread failed. '' @ strerror P rc)
                else ret ())
            else ret ())
         (store_thread this None))"

definition thread_init ::
  "('at, 'w, 'z) thread_api_scheme \<Rightarrow> pthread_t \<Rightarrow> addr \<Rightarrow> addr \<Rightarrow> size_t \<Rightarrow> ('at, 'w, int) thread_comp" where
  "thread_init P t this runner stack_size =
     bind (attr_call (pthread_attr_setdetachstate P PTHREAD_CREATE_JOINABLE) this) (\<lambda>rc.
       if rc \<noteq> 0 then throw (thread_exception (strerror P) ''pthread_attr_setdetachstate failed.'' rc)
       else
         seq (if 0 < stack_size then
                if pthread_stack_min P < stack_size then
                  bind (attr_call (pthread_attr_setstacksize P stack_size) this) (\<lambda>rc.
                    if 0 < stack_size \<and> rc \<noteq> 0 then
                      throw (thread_exception (strerror P)
                        ''bad stacksize, check size passed to thread::thread, thread not started.'' rc)
                    else ret ())
                else
                  throw (thread_exception (strerror P)
                    (''minimum stack size is '' @ to_string (unat (pthread_stack_min P)) @
                     '' bytes, you passed a size of '' @ to_string (unat stack_size))
                    thread_exception_default_error)
              else ret ())
           (bind (the_thread this) (\<lambda>x. case th_attr_ptr x of
                None \<Rightarrow> undefined_behaviour
              | Some p \<Rightarrow> bind (the_thread p) (\<lambda>y.
                  bind (sys (pthread_create P t (th_attr y) runner)) (\<lambda>(rc, tid).
                    seq (update_thread this (\<lambda>z. z\<lparr>th_thread := tid\<rparr>))
                      (if rc \<noteq> 0 then
                         throw (thread_exception (strerror P) ''pthread_create failed.'' rc)
                       else
                         seq (update_thread this (\<lambda>z. z\<lparr>th_status := a_thread\<rparr>)) (ret rc)))))))"

text \<open>
  Both constructors that take a \<open>runnable\<close> delegate to the default constructor: when \<open>init\<close>
  throws, the destructor runs.
\<close>

definition thread_ctor ::
  "('at, 'w, 'z) thread_api_scheme \<Rightarrow> pthread_t \<Rightarrow> addr \<Rightarrow> addr \<Rightarrow> size_t \<Rightarrow> ('at, 'w, unit) thread_comp" where
  "thread_ctor P t this work stack_size =
     seq (thread_default_ctor P this)
       (on_throw (seq (thread_init P t this work stack_size) (ret ())) (thread_dtor P this))"

definition thread_join ::
  "('at, 'w, 'z) thread_api_scheme \<Rightarrow> pthread_t \<Rightarrow> addr \<Rightarrow> ('at, 'w, unit) thread_comp" where
  "thread_join P t this =
     bind (the_thread this) (\<lambda>x.
       if th_thread x \<noteq> 0 then
         bind (this_thread_get_id t) (\<lambda>self.
         if th_thread x = self then
           throw (thread_exception (strerror P)
             ''join failed, joining yourself would endup in deadlock.'' thread_exception_default_error)
         else if th_status x = not_a_thread then
           throw (thread_exception (strerror P) ''join failed, this is not a thread.''
             thread_exception_default_error)
         else
           bind (sys_block (pthread_join P t (th_thread x))) (\<lambda>rc.
             if rc = 0 then
               seq (update_thread this (\<lambda>z. z\<lparr>th_status := not_a_thread\<rparr>))
                 (update_thread this (\<lambda>z. z\<lparr>th_thread := 0\<rparr>))
             else if rc = EDEADLK then
               throw (thread_exception (strerror P)
                 ''pthread::thread::join failed because of deadlock conditions.'' rc)
             else if rc = EINVAL then
               throw (thread_exception (strerror P)
                 ''pthread::thread::join failed not a joinable thread.'' rc)
             else if rc = ESRCH then ret ()
             else
               throw (thread_exception (strerror P)
                 ''pthread::thread::join detected an unexpected return code.'' rc)))
       else ret ())"

definition thread_joinable :: "addr \<Rightarrow> ('at, 'w, bool) thread_comp" where
  "thread_joinable this = bind (the_thread this) (\<lambda>x. ret (th_thread x \<noteq> 0))"

definition thread_get_id :: "addr \<Rightarrow> ('at, 'w, pthread_t) thread_comp" where
  "thread_get_id this = bind (the_thread this) (\<lambda>x. ret (th_thread x))"

definition thread_status_of :: "addr \<Rightarrow> ('at, 'w, thread_status) thread_comp" where
  "thread_status_of this = bind (the_thread this) (\<lambda>x. ret (th_status x))"

definition thread_stack_size :: "('at, 'w, 'z) thread_api_scheme \<Rightarrow> addr \<Rightarrow> ('at, 'w, size_t) thread_comp" where
  "thread_stack_size P this =
     bind (the_thread this) (\<lambda>x. case th_attr_ptr x of
         None \<Rightarrow> undefined_behaviour
       | Some p \<Rightarrow> bind (the_thread p) (\<lambda>y.
           bind (sys (pthread_attr_getstacksize P (th_attr y))) (\<lambda>(rc, sz).
             if rc \<noteq> 0 then throw (thread_exception (strerror P) ''failed to get stack size.'' rc)
             else ret sz)))"

text \<open>\<open>std::swap\<close> of one member of two objects, which may be the same object.\<close>

definition swap_member ::
  "('at thread \<Rightarrow> 'b) \<Rightarrow> ('b \<Rightarrow> 'at thread \<Rightarrow> 'at thread) \<Rightarrow> addr \<Rightarrow> addr \<Rightarrow> ('at, 'w, unit) thread_comp" where
  "swap_member get put this other =
     bind (the_thread this) (\<lambda>x. bind (the_thread other) (\<lambda>y.
       seq (update_thread this (put (get y))) (update_thread other (put (get x)))))"

definition thread_swap :: "addr \<Rightarrow> addr \<Rightarrow> ('at, 'w, unit) thread_comp" where
  "thread_swap this other =
     seq (swap_member th_thread (\<lambda>v z. z\<lparr>th_thread := v\<rparr>) this other)
       (seq (swap_member th_status (\<lambda>v z. z\<lparr>th_status := v\<rparr>) this other)
         (seq (swap_member th_attr (\<lambda>v z. z\<lparr>th_attr := v\<rparr>) this other)
           (update_thread this (\<lambda>z. z\<lparr>th_attr_ptr := Some this\<rparr>))))"

definition thread_move_ctor :: "('at, 'w, 'z) thread_api_scheme \<Rightarrow> addr \<Rightarrow> addr \<Rightarrow> ('at, 'w, unit) thread_comp" where
  "thread_move_ctor P this other =
     seq (thread_default_ctor P this) (on_throw (thread_swap this other) (thread_dtor P this))"

text \<open>The result is the object assigned to.\<close>

definition thread_move_assign :: "addr \<Rightarrow> addr \<Rightarrow> ('at, 'w, addr) thread_comp" where
  "thread_move_assign this other = seq (thread_swap this other) (ret this)"

section \<open>The start routine\<close>

text \<open>
  \<open>run\<close> is the virtual method the caller implements, declared \<open>noexcept\<close> since C++11, so an
  exception does not get past it; \<open>catch (...)\<close> catches the others.
\<close>

definition thread_startup_runnable ::
  "(addr \<Rightarrow> ('at, 'w, unit) thread_comp) \<Rightarrow> addr \<Rightarrow> ('at, 'w, addr option) thread_comp" where
  "thread_startup_runnable run runner =
     seq (try_catch (noexcept (run runner))
           (\<lambda>_. print_line
             ''uncaugth exception in thread_startup_runnable(), check your runnable::run() implementation.''))
       (ret None)"

section \<open>Running the primitives\<close>

named_theorems thread_run

lemma bind_the_thread [thread_run]:
  "mem_threads m p = Some x \<Longrightarrow> bind (the_thread p) k m = k x m"
  by (simp add: the_thread_def bind_assoc)

lemma bind_the_thread_gone [thread_run]:
  "mem_threads m p = None \<Longrightarrow> bind (the_thread p) k m = Some (Inl Undefined, m)"
  by (simp add: the_thread_def bind_assoc)

lemma bind_sys [thread_run]:
  "f (mem_os m) = (r, os) \<Longrightarrow> bind (sys f) k m = k r (m\<lparr>mem_os := os\<rparr>)"
  by (simp add: sys_def comp_simps)

lemma bind_sys_block [thread_run]:
  "f (mem_os m) = Some (r, os) \<Longrightarrow> bind (sys_block f) k m = k r (m\<lparr>mem_os := os\<rparr>)"
  by (simp add: sys_block_def bind_block)

lemma bind_sys_blocked [thread_run]:
  "f (mem_os m) = None \<Longrightarrow> bind (sys_block f) k m = None"
  by (simp add: sys_block_def bind_block)

lemma store_thread_run:
  "store_thread p x m = Some (Inr (), m\<lparr>mem_threads := (mem_threads m)(p := x)\<rparr>)"
  by (simp add: store_thread_def modify_def)

lemma bind_store_thread [thread_run]:
  "bind (store_thread p x) k m = k () (m\<lparr>mem_threads := (mem_threads m)(p := x)\<rparr>)"
  by (simp add: store_thread_def)

lemma update_thread_run [thread_run]:
  "mem_threads m p = Some x \<Longrightarrow>
     update_thread p f m = Some (Inr (), m\<lparr>mem_threads := (mem_threads m)(p \<mapsto> f x)\<rparr>)"
  by (simp add: update_thread_def thread_run store_thread_run)

lemma bind_update_thread [thread_run]:
  "mem_threads m p = Some x \<Longrightarrow>
     bind (update_thread p f) k m = k () (m\<lparr>mem_threads := (mem_threads m)(p \<mapsto> f x)\<rparr>)"
  by (simp add: bind_Inr [OF update_thread_run])

lemma bind_attr_call [thread_run]:
  assumes "mem_threads m this = Some x" and "th_attr_ptr x = Some this"
    and "f (th_attr x) (mem_os m) = ((rc, a), os)"
  shows "bind (attr_call f this) k m =
    k rc (m\<lparr>mem_os := os, mem_threads := (mem_threads m)(this \<mapsto> x\<lparr>th_attr := a\<rparr>)\<rparr>)"
  using assms by (simp add: attr_call_def bind_assoc thread_run)

text \<open>The memory after a change of the system and of one thread object.\<close>

abbreviation put_thread ::
  "('at, 'w) memory \<Rightarrow> 'w \<Rightarrow> addr \<Rightarrow> 'at thread \<Rightarrow> ('at, 'w) memory" where
  "put_thread m os p x \<equiv> m\<lparr>mem_os := os, mem_threads := (mem_threads m)(p \<mapsto> x)\<rparr>"

section \<open>A well-formed thread object\<close>

text \<open>Its attribute pointer leads to its own attributes; it has an identifier exactly when it is a thread.\<close>

definition thread_ok :: "addr \<Rightarrow> 'at thread \<Rightarrow> bool" where
  "thread_ok p x \<longleftrightarrow> th_attr_ptr x = Some p \<and> (th_thread x = 0 \<longleftrightarrow> th_status x = not_a_thread)"

definition threads_ok :: "('at, 'w) memory \<Rightarrow> bool" where
  "threads_ok m \<longleftrightarrow> (\<forall>p x. mem_threads m p = Some x \<longrightarrow> thread_ok p x)"

lemma threads_okD: "threads_ok m \<Longrightarrow> mem_threads m p = Some x \<Longrightarrow> thread_ok p x"
  by (simp add: threads_ok_def)

section \<open>\<open>join\<close>\<close>

text \<open>What the last branches of \<open>join\<close> throw.\<close>

definition join_error :: "('at, 'w, 'z) thread_api_scheme \<Rightarrow> int \<Rightarrow> exn" where
  "join_error P rc = thread_exception (strerror P)
     (if rc = EDEADLK then ''pthread::thread::join failed because of deadlock conditions.''
      else if rc = EINVAL then ''pthread::thread::join failed not a joinable thread.''
      else ''pthread::thread::join detected an unexpected return code.'') rc"

definition self_join_error :: "('at, 'w, 'z) thread_api_scheme \<Rightarrow> exn" where
  "self_join_error P = thread_exception (strerror P)
     ''join failed, joining yourself would endup in deadlock.'' (- 1)"

text \<open>On a well-formed object the test of the status never decides.\<close>

lemma thread_join_run:
  assumes x: "mem_threads m this = Some x" and ok: "thread_ok this x"
  shows "thread_join P t this m =
    (if th_thread x = 0 then Some (Inr (), m)
     else if th_thread x = t then Some (Inl (Thrown (self_join_error P)), m)
     else case pthread_join P t (th_thread x) (mem_os m) of
         None \<Rightarrow> None
       | Some (rc, os) \<Rightarrow>
           if rc = 0 then
             Some (Inr (), put_thread m os this (x\<lparr>th_status := not_a_thread, th_thread := 0\<rparr>))
           else if rc = ESRCH then Some (Inr (), m\<lparr>mem_os := os\<rparr>)
           else Some (Inl (Thrown (join_error P rc)), m\<lparr>mem_os := os\<rparr>))"
proof (cases "th_thread x = 0 \<or> th_thread x = t")
  case True
  with x show ?thesis
    by (auto simp: thread_join_def thread_run this_thread_get_id_def self_join_error_def
        thread_exception_default_error_def)
next
  case False
  with ok have live: "th_status x \<noteq> not_a_thread" by (simp add: thread_ok_def)
  show ?thesis
  proof (cases "pthread_join P t (th_thread x) (mem_os m)")
    case None
    with False x live show ?thesis
      by (simp add: thread_join_def thread_run this_thread_get_id_def)
  next
    case (Some r)
    then obtain rc os where "pthread_join P t (th_thread x) (mem_os m) = Some (rc, os)"
      by (cases r) auto
    with False x live show ?thesis
      by (simp add: thread_join_def thread_run this_thread_get_id_def join_error_def)
  qed
qed

section \<open>Destruction\<close>

text \<open>The destructor returns without an exception, whatever the system answers.\<close>

lemma thread_dtor_run:
  assumes "mem_threads m this = Some x" and "th_attr_ptr x = Some this"
    and "pthread_attr_destroy P (th_attr x) (mem_os m) = ((rc, a), os')"
  shows "thread_dtor P this m = Some (Inr (), m\<lparr>mem_os := os',
      mem_output := (if rc = 0 then mem_output m else mem_output m @
        [''pthread_attr_destroy called in pthread::~thread failed. '' @ strerror P rc]),
      mem_threads := (mem_threads m)(this := None)\<rparr>)"
  using assms by (simp add: thread_dtor_def bind_assoc thread_run print_line_def store_thread_run)

section \<open>Construction\<close>

context posix_threads
begin

text \<open>
  \<open>init\<close> on a fresh object always returns; it touches that object only, and changes no count
  of initialised attributes.  It makes the object a thread or throws.
\<close>

lemma init_outcome:
  assumes x: "mem_threads m this = Some x" and ptr: "th_attr_ptr x = Some this"
  shows "\<exists>r os' x'. thread_init P t this runner stack_size m = Some (r, put_thread m os' this x')
    \<and> th_attr_ptr x' = Some this \<and> live os' = live (mem_os m)
    \<and> ((\<exists>e. r = Inl (Thrown e)) \<or> r = Inr 0 \<and> th_thread x' \<noteq> 0 \<and> th_status x' = a_thread)"
proof -
  obtain rc1 a1 os1 where c1: "pthread_attr_setdetachstate P PTHREAD_CREATE_JOINABLE (th_attr x) (mem_os m)
      = ((rc1, a1), os1)" by (metis surj_pair)
  obtain rc2 a2 os2 where c2: "pthread_attr_setstacksize P stack_size a1 os1 = ((rc2, a2), os2)"
    by (metis surj_pair)
  obtain rc3 tid3 os3 where c3: "pthread_create P t a1 runner os1 = ((rc3, tid3), os3)"
    by (metis surj_pair)
  obtain rc4 tid4 os4 where c4: "pthread_create P t a2 runner os2 = ((rc4, tid4), os4)"
    by (metis surj_pair)
  have live: "live os1 = live (mem_os m)" "live os2 = live (mem_os m)"
      "live os3 = live (mem_os m)" "live os4 = live (mem_os m)"
    using setdetachstate_live [OF c1] setstacksize_live [OF c2] create_live [OF c3] create_live [OF c4]
    by simp_all
  have ids: "rc3 = 0 \<Longrightarrow> tid3 \<noteq> 0" "rc4 = 0 \<Longrightarrow> tid4 \<noteq> 0"
    using create_nonzero c3 c4 by blast+
  have start: "thread_init P t this runner stack_size m =
    (if rc1 \<noteq> 0 then Some (Inl (Thrown (thread_exception (strerror P) ''pthread_attr_setdetachstate failed.'' rc1)),
        put_thread m os1 this (x\<lparr>th_attr := a1\<rparr>))
     else if stack_size = 0 then
       (if rc3 \<noteq> 0 then Some (Inl (Thrown (thread_exception (strerror P) ''pthread_create failed.'' rc3)),
          put_thread m os3 this (x\<lparr>th_attr := a1, th_thread := tid3\<rparr>))
        else Some (Inr 0, put_thread m os3 this (x\<lparr>th_attr := a1, th_thread := tid3, th_status := a_thread\<rparr>)))
     else if \<not> pthread_stack_min P < stack_size then
       Some (Inl (Thrown (thread_exception (strerror P)
         (''minimum stack size is '' @ to_string (unat (pthread_stack_min P)) @
          '' bytes, you passed a size of '' @ to_string (unat stack_size)) (- 1))),
         put_thread m os1 this (x\<lparr>th_attr := a1\<rparr>))
     else if rc2 \<noteq> 0 then
       Some (Inl (Thrown (thread_exception (strerror P)
         ''bad stacksize, check size passed to thread::thread, thread not started.'' rc2)),
         put_thread m os2 this (x\<lparr>th_attr := a2\<rparr>))
     else if rc4 \<noteq> 0 then Some (Inl (Thrown (thread_exception (strerror P) ''pthread_create failed.'' rc4)),
         put_thread m os4 this (x\<lparr>th_attr := a2, th_thread := tid4\<rparr>))
     else Some (Inr 0, put_thread m os4 this (x\<lparr>th_attr := a2, th_thread := tid4, th_status := a_thread\<rparr>)))"
    using x ptr c1 c2 c3 c4
    by (simp add: thread_init_def bind_assoc thread_run thread_exception_default_error_def
        word_neq_0_conv)
  show ?thesis unfolding start
    by (simp only: split: if_split, intro conjI impI)
      (rule exI, rule exI, rule exI, rule conjI, rule refl, simp add: ptr live ids)+
qed

lemma dtor_outcome:
  assumes "mem_threads m this = Some x" and "th_attr_ptr x = Some this"
  shows "\<exists>os' out. thread_dtor P this m = Some (Inr (), m\<lparr>mem_os := os', mem_output := out,
      mem_threads := (mem_threads m)(this := None)\<rparr>) \<and> live os' = live (mem_os m) - 1"
proof -
  obtain rc a os' where c: "pthread_attr_destroy P (th_attr x) (mem_os m) = ((rc, a), os')"
    by (metis surj_pair)
  with thread_dtor_run [OF assms c] destroy_live [OF c] show ?thesis by blast
qed

lemma default_ctor_outcome:
  "\<exists>r os' a. thread_default_ctor P this m = Some (r, m\<lparr>mem_os := os',
       mem_threads := (if r = Inr () then (mem_threads m)(this \<mapsto> \<lparr>th_thread = 0, th_attr = a,
         th_attr_ptr = Some this, th_status = not_a_thread\<rparr>) else mem_threads m)\<rparr>)
     \<and> (r = Inr () \<and> live os' = live (mem_os m) + 1
        \<or> (\<exists>e. r = Inl (Thrown e)) \<and> live os' = live (mem_os m))"
proof -
  obtain rc a os' where c: "pthread_attr_init P (mem_os m) = ((rc, a), os')" by (metis surj_pair)
  show ?thesis
  proof (cases "rc = 0")
    case True
    with c init_live [OF c] show ?thesis
      by (intro exI [of _ "Inr ()"] exI [of _ os'] exI [of _ a])
        (simp add: thread_default_ctor_def thread_run store_thread_run)
  next
    case False
    with c init_live [OF c] show ?thesis
      by (intro exI [of _ "Inl (Thrown (thread_exception (strerror P)
            ''pthread_attr_init call in pthread::pthread() failed.'' rc))"] exI [of _ os'] exI [of _ a])
        (simp add: thread_default_ctor_def thread_run)
  qed
qed

text \<open>
  A constructor that takes a \<open>runnable\<close> makes a thread, with one more initialised attribute
  object, or throws, and then leaves neither an object nor initialised attributes behind.
\<close>

lemma ctor_outcome:
  assumes "mem_threads m this = None"
  shows "\<exists>r m'. thread_ctor P t this runner stack_size m = Some (r, m')
    \<and> (r = Inr () \<and> live (mem_os m') = live (mem_os m) + 1
         \<and> (\<exists>x. mem_threads m' = (mem_threads m)(this \<mapsto> x) \<and> thread_ok this x \<and> th_thread x \<noteq> 0)
       \<or> (\<exists>e. r = Inl (Thrown e)) \<and> live (mem_os m') = live (mem_os m)
         \<and> mem_threads m' = mem_threads m)
    \<and> mem_abstract m' = mem_abstract m \<and> mem_next m' = mem_next m"
proof -
  obtain r1 os1 a where d: "thread_default_ctor P this m = Some (r1, m\<lparr>mem_os := os1,
       mem_threads := (if r1 = Inr () then (mem_threads m)(this \<mapsto> \<lparr>th_thread = 0, th_attr = a,
         th_attr_ptr = Some this, th_status = not_a_thread\<rparr>) else mem_threads m)\<rparr>)"
    and d': "r1 = Inr () \<and> live os1 = live (mem_os m) + 1
        \<or> (\<exists>e. r1 = Inl (Thrown e)) \<and> live os1 = live (mem_os m)"
    using default_ctor_outcome by blast
  show ?thesis
  proof (cases "r1 = Inr ()")
    case False
    with d d' show ?thesis by (auto simp: thread_ctor_def bind_def)
  next
    case True
    define x0 where "x0 = \<lparr>th_thread = 0, th_attr = a, th_attr_ptr = Some this, th_status = not_a_thread\<rparr>"
    define m1 where "m1 = m\<lparr>mem_os := os1, mem_threads := (mem_threads m)(this \<mapsto> x0)\<rparr>"
    have x0: "mem_threads m1 this = Some x0" "th_attr_ptr x0 = Some this"
      by (simp_all add: m1_def x0_def)
    obtain r2 os2 x2 where i: "thread_init P t this runner stack_size m1
        = Some (r2, put_thread m1 os2 this x2)"
      and x2: "th_attr_ptr x2 = Some this" "live os2 = live (mem_os m1)"
      and r2: "(\<exists>e. r2 = Inl (Thrown e)) \<or> r2 = Inr 0 \<and> th_thread x2 \<noteq> 0 \<and> th_status x2 = a_thread"
      using init_outcome [OF x0, of t runner stack_size] by (elim exE conjE) (rule that)
    have "thread_default_ctor P this m = Some (Inr (), m1)"
      using d unfolding True by (simp only: m1_def x0_def if_True simp_thms)
    then have ctor: "thread_ctor P t this runner stack_size m =
        on_throw (seq (thread_init P t this runner stack_size) (ret ())) (thread_dtor P this) m1"
      unfolding thread_ctor_def by (rule bind_Inr)
    from r2 show ?thesis
    proof
      assume "\<exists>e. r2 = Inl (Thrown e)"
      then obtain e where e: "r2 = Inl (Thrown e)" by blast
      obtain os3 out where del: "thread_dtor P this (put_thread m1 os2 this x2)
          = Some (Inr (), (put_thread m1 os2 this x2)\<lparr>mem_os := os3, mem_output := out,
              mem_threads := (mem_threads (put_thread m1 os2 this x2))(this := None)\<rparr>)"
        and "live os3 = live os2 - 1"
        using dtor_outcome [of "put_thread m1 os2 this x2" this x2] x2 by auto
      have s: "seq (thread_init P t this runner stack_size) (ret ()) m1
          = Some (Inl (Thrown e), put_thread m1 os2 this x2)"
        by (rule bind_Inl) (simp add: i e)
      have run: "thread_ctor P t this runner stack_size m = Some (Inl (Thrown e),
          put_thread m1 os2 this x2\<lparr>mem_os := os3, mem_output := out,
            mem_threads := (mem_threads (put_thread m1 os2 this x2))(this := None)\<rparr>)"
        unfolding ctor by (rule on_throw_undone) (rule s, rule del)
      from assms d' True x2 \<open>live os3 = live os2 - 1\<close> show ?thesis
        unfolding run by (simp add: m1_def fun_upd_idem)
    next
      assume "r2 = Inr 0 \<and> th_thread x2 \<noteq> 0 \<and> th_status x2 = a_thread"
      moreover from this have run: "thread_ctor P t this runner stack_size m
          = Some (Inr (), put_thread m1 os2 this x2)"
        unfolding ctor using i by (intro on_throw_kept) (simp add: bind_Inr)
      ultimately show ?thesis
        unfolding run using d' True x2 by (auto simp: m1_def thread_ok_def)
    qed
  qed
qed

end

section \<open>Moves\<close>

text \<open>
  \<open>swap\<close> exchanges identifier, status and attributes; each object keeps a pointer to its own
  attributes.  Swapped with itself an object stays what it was.
\<close>

lemma thread_swap_run:
  assumes "mem_threads m this = Some x" and "mem_threads m other = Some y" and "this \<noteq> other"
    and "thread_ok this x" and "thread_ok other y"
  shows "thread_swap this other m = Some (Inr (), m\<lparr>mem_threads := (mem_threads m)
    (this \<mapsto> y\<lparr>th_attr_ptr := Some this\<rparr>, other \<mapsto> x\<lparr>th_attr_ptr := Some other\<rparr>)\<rparr>)"
  using assms
  by (cases x, cases y)
    (simp add: thread_swap_def swap_member_def bind_assoc thread_run thread_ok_def fun_upd_twist)

lemma thread_swap_self:
  assumes "mem_threads m this = Some x" and "thread_ok this x"
  shows "thread_swap this this m = Some (Inr (), m)"
  using assms
  by (simp add: thread_swap_def swap_member_def bind_assoc thread_run thread_ok_def fun_upd_idem)

section \<open>Properties\<close>

text \<open>A memory for the concrete instances: thread objects at 1 and 2, the first one runs.\<close>

definition ref_memory :: "(size_t, ref_os) memory" where
  "ref_memory = \<lparr>
     mem_threads = [1 \<mapsto> \<lparr>th_thread = 1, th_attr = 8388608, th_attr_ptr = Some 1, th_status = a_thread\<rparr>,
       2 \<mapsto> \<lparr>th_thread = 0, th_attr = 4194304, th_attr_ptr = Some 2, th_status = not_a_thread\<rparr>],
     mem_abstract = Map.empty, mem_next = 3, mem_output = [],
     mem_os = \<lparr>ro_next = 2, ro_limit = 8, ro_threads = [1], ro_live = 2,
       ro_runs = [1 \<mapsto> 10], ro_done = []\<rparr>\<rparr>"

text \<open>C29: what \<open>join\<close> does on a well-formed object: nothing on one that is not a thread, an exception
  without a call of the system on the calling thread itself, and otherwise one \<open>pthread_join\<close>.
  If that succeeds the object is no longer a thread; \<open>ESRCH\<close> is taken for success but leaves the
  object as it is; every other code is thrown.  The branch for a status that is not a thread is
  never taken.\<close>

theorem thread_join_outcomes:
  assumes "threads_ok m" and "mem_threads m this = Some x"
  shows "thread_join P t this m =
    (if th_thread x = 0 then Some (Inr (), m)
     else if th_thread x = t then Some (Inl (Thrown (self_join_error P)), m)
     else case pthread_join P t (th_thread x) (mem_os m) of
         None \<Rightarrow> None
       | Some (rc, os) \<Rightarrow>
           if rc = 0 then
             Some (Inr (), put_thread m os this (x\<lparr>th_status := not_a_thread, th_thread := 0\<rparr>))
           else if rc = ESRCH then Some (Inr (), m\<lparr>mem_os := os\<rparr>)
           else Some (Inl (Thrown (join_error P rc)), m\<lparr>mem_os := os\<rparr>))"
  using assms(2) threads_okD [OF assms] by (rule thread_join_run)

lemma thread_join_outcomes_witness:
  "\<exists>m'. thread_join ref_threads 9 1 ref_memory = Some (Inr (), m')
     \<and> map_option th_status (mem_threads m' 1) = Some not_a_thread"
proof -
  have "threads_ok ref_memory" by (simp add: threads_ok_def ref_memory_def thread_ok_def)
  from thread_join_outcomes [OF this, of 1 _ ref_threads 9] show ?thesis
    by (simp add: ref_memory_def ref_threads_def ref_join_def)
qed

text \<open>C23: the constructors that start a thread always come back.  The object is then a running thread
  with its own initialised attributes; or an exception is thrown, and neither the object nor
  initialised attributes are left behind.\<close>

theorem thread_ctor_all_or_nothing:
  assumes "posix_threads P live" and "mem_threads m this = None"
  shows "\<exists>r m'. thread_ctor P t this runner stack_size m = Some (r, m')
    \<and> (r = Inr () \<and> live (mem_os m') = live (mem_os m) + 1
         \<and> (\<exists>x. mem_threads m' = (mem_threads m)(this \<mapsto> x) \<and> thread_ok this x \<and> th_thread x \<noteq> 0)
       \<or> (\<exists>e. r = Inl (Thrown e)) \<and> live (mem_os m') = live (mem_os m)
         \<and> mem_threads m' = mem_threads m)"
  using posix_threads.ctor_outcome [OF assms, of t runner stack_size] by (elim exE conjE) blast

lemma thread_ctor_all_or_nothing_witness:
  "(\<exists>m'. thread_ctor ref_threads 9 5 10 65536 ref_memory = Some (Inr (), m')
      \<and> ro_live (mem_os m') = 3 \<and> mem_threads m' 5 \<noteq> None)
   \<and> (\<exists>e m'. thread_ctor ref_threads 9 5 10 100 ref_memory = Some (Inl (Thrown e), m')
      \<and> ro_live (mem_os m') = 2 \<and> mem_threads m' = mem_threads ref_memory)"
proof -
  have "map_option fst (thread_ctor ref_threads 9 5 10 65536 ref_memory) = Some (Inr ())" by code_simp
  moreover have "thread_ctor ref_threads 9 5 10 100 ref_memory \<noteq> Some (Inr (), m')" for m'
    by (simp add: thread_ctor_def thread_init_def bind_returns_iff on_throw_returns_iff ref_threads_def)
  ultimately show ?thesis
    using thread_ctor_all_or_nothing [OF ref_posix_threads, of ref_memory 5 9 10 65536]
      thread_ctor_all_or_nothing [OF ref_posix_threads, of ref_memory 5 9 10 100]
    by (auto simp: ref_memory_def)
qed

text \<open>A thread is never started with a stack size from 1 to \<open>PTHREAD_STACK_MIN\<close>, that size included.\<close>

theorem thread_ctor_refuses_small_stack:
  assumes "0 < stack_size" and "stack_size \<le> pthread_stack_min P"
  shows "thread_ctor P t this runner stack_size m \<noteq> Some (Inr (), m')"
  using assms
  by (simp add: thread_ctor_def thread_init_def bind_returns_iff on_throw_returns_iff not_less [symmetric])

lemma thread_ctor_refuses_small_stack_witness:
  "thread_ctor ref_threads 9 5 10 16384 ref_memory \<noteq> Some (Inr (), ref_memory)"
  by (rule thread_ctor_refuses_small_stack) (simp_all add: ref_threads_def)

text \<open>The move constructor gives the new object the other's identifier, status and attributes; the
  other object is no longer a thread and keeps fresh attributes of its own.\<close>

theorem thread_move_ctor_moves:
  assumes "mem_threads m other = Some y" and "thread_ok other y" and "this \<noteq> other"
    and "pthread_attr_init P (mem_os m) = ((0, attr), os')"
  shows "thread_move_ctor P this other m = Some (Inr (), m\<lparr>mem_os := os', mem_threads := (mem_threads m)
    (this \<mapsto> \<lparr>th_thread = th_thread y, th_attr = th_attr y, th_attr_ptr = Some this, th_status = th_status y\<rparr>,
     other \<mapsto> \<lparr>th_thread = 0, th_attr = attr, th_attr_ptr = Some other, th_status = not_a_thread\<rparr>)\<rparr>)"
proof -
  define x where "x = \<lparr>th_thread = 0, th_attr = attr, th_attr_ptr = Some this, th_status = not_a_thread\<rparr>"
  have ok: "thread_ok this x" by (simp add: thread_ok_def x_def)
  have ctor: "thread_default_ctor P this m = Some (Inr (), put_thread m os' this x)"
    using assms(4) by (simp add: thread_default_ctor_def thread_run store_thread_run x_def)
  have swap: "thread_swap this other (put_thread m os' this x) = Some (Inr (),
      (put_thread m os' this x)\<lparr>mem_threads := (mem_threads (put_thread m os' this x))
        (this \<mapsto> y\<lparr>th_attr_ptr := Some this\<rparr>, other \<mapsto> x\<lparr>th_attr_ptr := Some other\<rparr>)\<rparr>)"
    by (rule thread_swap_run) (use assms(1-3) ok in simp_all)
  have "on_throw (thread_swap this other) (thread_dtor P this) (put_thread m os' this x) = Some (Inr (),
      m\<lparr>mem_os := os', mem_threads := (mem_threads m)
        (this \<mapsto> y\<lparr>th_attr_ptr := Some this\<rparr>, other \<mapsto> x\<lparr>th_attr_ptr := Some other\<rparr>)\<rparr>)"
    by (rule on_throw_kept) (simp add: swap)
  then have "thread_move_ctor P this other m = Some (Inr (), m\<lparr>mem_os := os', mem_threads := (mem_threads m)
        (this \<mapsto> y\<lparr>th_attr_ptr := Some this\<rparr>, other \<mapsto> x\<lparr>th_attr_ptr := Some other\<rparr>)\<rparr>)"
    by (simp add: thread_move_ctor_def bind_Inr ctor)
  then show ?thesis by (cases y) (simp add: x_def)
qed

lemma thread_move_ctor_moves_witness:
  "\<exists>m'. thread_move_ctor ref_threads 5 1 ref_memory = Some (Inr (), m')
     \<and> map_option th_thread (mem_threads m' 5) = Some 1 \<and> map_option th_thread (mem_threads m' 1) = Some 0"
  using thread_move_ctor_moves [of ref_memory 1 _ 5 ref_threads]
  by (simp add: ref_memory_def ref_threads_def thread_ok_def)

text \<open>C34: a move assignment exchanges the two objects: neither handle is lost, each object points to its
  own attributes, and an object assigned to itself is unchanged.\<close>

theorem thread_move_assign_exchanges:
  assumes "mem_threads m this = Some x" and "mem_threads m other = Some y"
    and "thread_ok this x" and "thread_ok other y"
  shows "thread_move_assign this other m = Some (Inr this, m\<lparr>mem_threads := (mem_threads m)
    (this \<mapsto> y\<lparr>th_attr_ptr := Some this\<rparr>, other \<mapsto> x\<lparr>th_attr_ptr := Some other\<rparr>)\<rparr>)"
proof (cases "this = other")
  case True
  with assms show ?thesis
    by (simp add: thread_move_assign_def bind_Inr [OF thread_swap_self] thread_ok_def fun_upd_idem)
next
  case False
  with assms show ?thesis
    by (simp add: thread_move_assign_def bind_Inr [OF thread_swap_run])
qed

lemma thread_move_assign_exchanges_witness:
  "\<exists>m'. thread_move_assign 2 1 ref_memory = Some (Inr 2, m')
     \<and> map_option th_thread (mem_threads m' 2) = Some 1 \<and> map_option th_thread (mem_threads m' 1) = Some 0"
  using thread_move_assign_exchanges [of ref_memory 2 _ 1]
  by (simp add: ref_memory_def thread_ok_def)

text \<open>\<open>sleep_for\<close> is undefined exactly for delays below -2147483 milliseconds.  From one second on
  it sleeps whole seconds: the milliseconds beyond them make no difference.\<close>

theorem sleep_for_behaviour:
  "(never_ub (sleep_for P millis) m \<longleftrightarrow> - 2147483 \<le> sint millis)
   \<and> (1000 \<le> sint millis \<longrightarrow> sint millis' = sint millis div 1000 * 1000 \<longrightarrow>
        sleep_for P millis m = sleep_for P millis' m)"
proof (intro conjI impI)
  show "never_ub (sleep_for P millis) m \<longleftrightarrow> - 2147483 \<le> sint millis"
  proof
    assume "- 2147483 \<le> sint millis"
    then show "never_ub (sleep_for P millis) m"
      unfolding sleep_for_def sys_def by (intro no_ub) simp
  next
    assume "never_ub (sleep_for P millis) m"
    then show "- 2147483 \<le> sint millis"
      by (rule contrapos_pp) (simp add: sleep_for_def never_ub_def)
  qed
  assume big: "1000 \<le> sint millis" and m': "sint millis' = sint millis div 1000 * 1000"
  have "1 \<le> sint millis div 1000" using big by linarith
  then have big': "1000 \<le> sint millis'" using m' by linarith
  have "sdiv_word millis 1000 = sdiv_word millis' 1000"
    using big big' m' by (simp add: sdiv_word_def sdiv_nonneg)
  with big big' show "sleep_for P millis m = sleep_for P millis' m"
    by (simp add: sleep_for_def)
qed

lemma sleep_for_behaviour_witness:
  "sleep_for ref_threads 1999 ref_memory = sleep_for ref_threads 1000 ref_memory"
  using sleep_for_behaviour [of ref_threads 1999 ref_memory 1000] by simp

text \<open>The start routine never lets an exception out, but its \<open>catch (...)\<close> never catches one: an
  exception that leaves \<open>run\<close>, which is \<open>noexcept\<close>, terminates the program before.\<close>

theorem startup_routine_handler_is_dead:
  "thread_startup_runnable run runner m =
    (case run runner m of
       None \<Rightarrow> None
     | Some (Inl (Thrown e), m') \<Rightarrow> Some (Inl Terminated, m')
     | Some (Inl f, m') \<Rightarrow> Some (Inl f, m')
     | Some (Inr _, m') \<Rightarrow> Some (Inr None, m'))"
  by (simp add: thread_startup_runnable_def bind_def try_catch_def noexcept_def
      split: option.split sum.split failure.split prod.split)

end
