(* ===== verification/Thread_Group.thy ===== *)
theory Thread_Group
  imports Thread
begin

text \<open>
  The classes \<open>abstract_thread\<close> and \<open>thread_group\<close> (include/pthread/thread.hpp,
  src/thread.cpp).  An \<open>abstract_thread\<close> is a \<open>runnable\<close> that owns its \<open>thread\<close>; a group holds
  pointers to such objects and deletes them in its destructor.  Derived classes add a \<open>run\<close>
  method only: their destructors are taken to do nothing.
\<close>

section \<open>\<open>abstract_thread\<close>\<close>

definition the_abstract :: "addr \<Rightarrow> ('at, 'w, abstract_thread) thread_comp" where
  "the_abstract q = bind (gets (\<lambda>m. mem_abstract m q)) (\<lambda>x. case x of
       None \<Rightarrow> undefined_behaviour
     | Some a \<Rightarrow> ret a)"

definition store_abstract :: "addr \<Rightarrow> abstract_thread option \<Rightarrow> ('at, 'w, unit) thread_comp" where
  "store_abstract q x = modify (\<lambda>m. m\<lparr>mem_abstract := (mem_abstract m)(q := x)\<rparr>)"

definition abstract_thread_ctor :: "addr \<Rightarrow> size_t \<Rightarrow> ('at, 'w, unit) thread_comp" where
  "abstract_thread_ctor this stack_size =
     store_abstract this (Some \<lparr>ab_thread = None, ab_stack_size = stack_size\<rparr>)"

text \<open>\<open>delete\<close> runs the destructor of the thread object; it must exist.\<close>

definition abstract_thread_dtor ::
  "('at, 'w, 'z) thread_api_scheme \<Rightarrow> addr \<Rightarrow> ('at, 'w, unit) thread_comp" where
  "abstract_thread_dtor P this =
     bind (the_abstract this) (\<lambda>a.
       seq (case ab_thread a of
              None \<Rightarrow> ret ()
            | Some p \<Rightarrow> seq (noexcept (thread_dtor P p))
                (store_abstract this (Some (a\<lparr>ab_thread := None\<rparr>))))
         (store_abstract this None))"

text \<open>An object constructed at an address never used before; \<open>new pthread::thread (runner, stack_size)\<close>.\<close>

definition new_object :: "(addr \<Rightarrow> ('at, 'w, unit) thread_comp) \<Rightarrow> ('at, 'w, addr) thread_comp" where
  "new_object ctor =
     bind (gets mem_next) (\<lambda>p.
       seq (modify (\<lambda>m. m\<lparr>mem_next := Suc p\<rparr>))
         (seq (ctor p) (ret p)))"

definition new_thread ::
  "('at, 'w, 'z) thread_api_scheme \<Rightarrow> pthread_t \<Rightarrow> addr \<Rightarrow> size_t \<Rightarrow> ('at, 'w, addr) thread_comp" where
  "new_thread P t runner stack_size = new_object (\<lambda>p. thread_ctor P t p runner stack_size)"

definition abstract_thread_start ::
  "('at, 'w, 'z) thread_api_scheme \<Rightarrow> pthread_t \<Rightarrow> addr \<Rightarrow> ('at, 'w, unit) thread_comp" where
  "abstract_thread_start P t this =
     bind (the_abstract this) (\<lambda>a.
       bind (new_thread P t this (ab_stack_size a)) (\<lambda>p.
         bind (the_abstract this) (\<lambda>a'. store_abstract this (Some (a'\<lparr>ab_thread := Some p\<rparr>)))))"

definition abstract_thread_join ::
  "('at, 'w, 'z) thread_api_scheme \<Rightarrow> pthread_t \<Rightarrow> addr \<Rightarrow> ('at, 'w, unit) thread_comp" where
  "abstract_thread_join P t this =
     bind (the_abstract this) (\<lambda>a. case ab_thread a of
         None \<Rightarrow> ret ()
       | Some p \<Rightarrow> thread_join P t p)"

definition abstract_thread_joinable :: "addr \<Rightarrow> ('at, 'w, bool) thread_comp" where
  "abstract_thread_joinable this =
     bind (the_abstract this) (\<lambda>a. case ab_thread a of
         None \<Rightarrow> ret False
       | Some p \<Rightarrow> thread_joinable p)"

section \<open>\<open>thread_group\<close>\<close>

record thread_group =
  tg_threads :: "addr list"
  tg_destructor_joins_first :: bool

definition thread_group_ctor :: "bool \<Rightarrow> thread_group" where
  "thread_group_ctor joins_first = \<lparr>tg_threads = [], tg_destructor_joins_first = joins_first\<rparr>"

definition thread_group_add :: "addr \<Rightarrow> thread_group \<Rightarrow> thread_group" where
  "thread_group_add thread g = g\<lparr>tg_threads := tg_threads g @ [thread]\<rparr>"

definition thread_group_size :: "thread_group \<Rightarrow> 64 word" where
  "thread_group_size g = of_nat (length (tg_threads g))"

definition destructor_joins_first :: "thread_group \<Rightarrow> bool" where
  "destructor_joins_first g = tg_destructor_joins_first g"

definition thread_group_start ::
  "('at, 'w, 'z) thread_api_scheme \<Rightarrow> pthread_t \<Rightarrow> thread_group \<Rightarrow> ('at, 'w, unit) thread_comp" where
  "thread_group_start P t g = for_each (abstract_thread_start P t) (tg_threads g)"

definition thread_group_join ::
  "('at, 'w, 'z) thread_api_scheme \<Rightarrow> pthread_t \<Rightarrow> thread_group \<Rightarrow> ('at, 'w, unit) thread_comp" where
  "thread_group_join P t g =
     for_each (\<lambda>q. bind (abstract_thread_joinable q) (\<lambda>joinable.
         if joinable then abstract_thread_join P t q else ret ()))
       (tg_threads g)"

text \<open>What the destructor does with one thread before the \<open>unique_ptr\<close> deletes it.\<close>

definition join_quietly ::
  "('at, 'w, 'z) thread_api_scheme \<Rightarrow> pthread_t \<Rightarrow> addr \<Rightarrow> ('at, 'w, unit) thread_comp" where
  "join_quietly P t thread =
     try_catch (abstract_thread_join P t thread) (\<lambda>err.
       if is_pthread_exception err then
         print_line (''thread_group destructor failed to join one thread. '' @ what err)
       else
         print_line ''thread_group destructor catched an unexpected exception when joining threads.'')"

definition thread_group_dtor ::
  "('at, 'w, 'z) thread_api_scheme \<Rightarrow> pthread_t \<Rightarrow> thread_group \<Rightarrow> ('at, 'w, unit) thread_comp" where
  "thread_group_dtor P t g =
     noexcept (bind (while_comp (\<lambda>g. tg_threads g \<noteq> [])
         (\<lambda>g. case tg_threads g of
            [] \<Rightarrow> undefined_behaviour
          | thread # rest \<Rightarrow>
              scoped
                (bind (ret (g\<lparr>tg_threads := rest\<rparr>)) (\<lambda>g'.
                   if tg_destructor_joins_first g' then
                     bind (abstract_thread_joinable thread) (\<lambda>joinable.
                       seq (if joinable then join_quietly P t thread else ret ()) (ret g'))
                   else ret g'))
                (abstract_thread_dtor P thread))
         g)
       (\<lambda>_. ret ()))"

section \<open>A well-formed memory\<close>

text \<open>
  Thread objects are well-formed and lie below the next new address; an \<open>abstract_thread\<close>
  owns a thread object that exists, and no other one owns it.
\<close>

definition owns :: "('at, 'w) memory \<Rightarrow> addr \<Rightarrow> addr \<Rightarrow> bool" where
  "owns m q p \<longleftrightarrow> (\<exists>a. mem_abstract m q = Some a \<and> ab_thread a = Some p)"

definition memory_ok :: "('at, 'w) memory \<Rightarrow> bool" where
  "memory_ok m \<longleftrightarrow> threads_ok m
     \<and> (\<forall>p \<ge> mem_next m. mem_threads m p = None)
     \<and> (\<forall>q p. owns m q p \<longrightarrow> mem_threads m p \<noteq> None)
     \<and> (\<forall>q q' p. owns m q p \<longrightarrow> owns m q' p \<longrightarrow> q = q')"

lemma bind_the_abstract [thread_run]:
  "mem_abstract m q = Some a \<Longrightarrow> bind (the_abstract q) k m = k a m"
  by (simp add: the_abstract_def bind_assoc)

lemma store_abstract_run [thread_run]:
  "store_abstract q x m = Some (Inr (), m\<lparr>mem_abstract := (mem_abstract m)(q := x)\<rparr>)"
  by (simp add: store_abstract_def modify_def)

lemma bind_store_abstract [thread_run]:
  "bind (store_abstract q x) k m = k () (m\<lparr>mem_abstract := (mem_abstract m)(q := x)\<rparr>)"
  by (simp add: store_abstract_def)

text \<open>What an \<open>abstract_thread\<close> owns, as found in the memory.\<close>

lemma memory_ok_owned:
  assumes "memory_ok m" and "mem_abstract m q = Some a" and "ab_thread a = Some p"
  obtains x where "mem_threads m p = Some x" and "thread_ok p x" and "p < mem_next m"
proof -
  have o: "owns m q p" using assms(2,3) by (simp add: owns_def)
  with assms(1) have "mem_threads m p \<noteq> None" unfolding memory_ok_def by blast
  then obtain x where x: "mem_threads m p = Some x" by auto
  moreover have "thread_ok p x" using assms(1) x by (simp add: memory_ok_def threads_ok_def)
  moreover have "p < mem_next m" using assms(1) x by (cases "p < mem_next m") (auto simp: memory_ok_def)
  ultimately show ?thesis by (rule that)
qed

text \<open>The joinability of an \<open>abstract_thread\<close>, as a function of the memory.\<close>

definition has_thread :: "('at, 'w) memory \<Rightarrow> addr \<Rightarrow> bool" where
  "has_thread m q \<longleftrightarrow> (\<exists>p x. owns m q p \<and> mem_threads m p = Some x \<and> th_thread x \<noteq> 0)"

lemma abstract_thread_joinable_run [thread_run]:
  assumes "memory_ok m" and "mem_abstract m q = Some a"
  shows "abstract_thread_joinable q m = Some (Inr (has_thread m q), m)"
proof (cases "ab_thread a")
  case None
  with assms(2) show ?thesis
    by (simp add: abstract_thread_joinable_def thread_run has_thread_def owns_def)
next
  case (Some p)
  from memory_ok_owned [OF assms Some] obtain x where "mem_threads m p = Some x" by blast
  with assms(2) Some show ?thesis
    by (simp add: abstract_thread_joinable_def thread_joinable_def thread_run has_thread_def owns_def)
qed

section \<open>Joining\<close>

lemma memory_ok_put:
  assumes "memory_ok m" and "mem_threads m p = Some x" and "thread_ok p x'"
    and "mem_threads m' = (mem_threads m)(p \<mapsto> x')"
    and "mem_abstract m' = mem_abstract m" and "mem_next m' = mem_next m"
  shows "memory_ok m'"
  using assms by (auto simp: memory_ok_def threads_ok_def owns_def)

text \<open>\<open>join\<close> changes at most the thread object it is called on, and every exception is one of the library's.\<close>

lemma abstract_thread_join_outcome:
  assumes ok: "memory_ok m" and q: "mem_abstract m q = Some a"
    and run: "abstract_thread_join P t q m = Some (r, m')"
  shows "(r = Inr () \<or> (\<exists>e. r = Inl (Thrown e) \<and> is_pthread_exception e))
    \<and> memory_ok m' \<and> mem_abstract m' = mem_abstract m \<and> mem_next m' = mem_next m
    \<and> (\<forall>p. \<not> owns m q p \<longrightarrow> mem_threads m' p = mem_threads m p)
    \<and> (r = Inr () \<longrightarrow> has_thread m' q \<longrightarrow> (\<exists>u w os. pthread_join P t u w = Some (ESRCH, os)))"
proof (cases "ab_thread a")
  case None
  with run q ok show ?thesis
    by (auto simp: abstract_thread_join_def thread_run has_thread_def owns_def)
next
  case (Some p)
  from memory_ok_owned [OF ok q Some] obtain x
    where x: "mem_threads m p = Some x" and xok: "thread_ok p x" by blast
  have own: "owns m q p' \<longleftrightarrow> p' = p" for p' using q Some by (auto simp: owns_def)
  have done_ok: "memory_ok (put_thread m os p (x\<lparr>th_status := not_a_thread, th_thread := 0\<rparr>))" for os
    by (rule memory_ok_put [OF ok x]) (use xok in \<open>simp_all add: thread_ok_def\<close>)
  have os_ok: "memory_ok (m\<lparr>mem_os := os\<rparr>)" for os
    using ok by (simp add: memory_ok_def threads_ok_def owns_def)
  have join: "thread_join P t p m = Some (r, m')"
    using run q Some by (simp add: abstract_thread_join_def thread_run)
  have errs: "is_pthread_exception (join_error P rc)" "is_pthread_exception (self_join_error P)" for rc
    by (simp_all add: join_error_def self_join_error_def exception_defs)
  from join show ?thesis
    unfolding thread_join_run [OF x xok] has_thread_def
    using ok own x done_ok os_ok errs
    by (auto simp: owns_def split: if_splits option.splits) blast
qed

text \<open>If \<open>pthread_join\<close> comes back, so does \<open>join\<close>.\<close>

definition joins_return :: "('at, 'w, 'z) thread_api_scheme \<Rightarrow> bool" where
  "joins_return P \<longleftrightarrow> (\<forall>t u w. pthread_join P t u w \<noteq> None)"

lemma abstract_thread_join_returns:
  assumes ok: "memory_ok m" and q: "mem_abstract m q = Some a" and "joins_return P"
  shows "abstract_thread_join P t q m \<noteq> None"
proof (cases "ab_thread a")
  case None
  with q show ?thesis by (simp add: abstract_thread_join_def thread_run)
next
  case (Some p)
  from memory_ok_owned [OF ok q Some] obtain x
    where "mem_threads m p = Some x" and "thread_ok p x" by blast
  moreover have "pthread_join P t (th_thread x) (mem_os m) \<noteq> None"
    using assms(3) by (simp only: joins_return_def not_False_eq_True)
  ultimately show ?thesis
    using q Some
    by (auto simp: abstract_thread_join_def thread_run thread_join_run split: option.split)
qed

section \<open>Deleting\<close>

text \<open>The objects of a set are gone, with the threads they owned; all others are as before.\<close>

definition deleted :: "addr set \<Rightarrow> ('at, 'w) memory \<Rightarrow> ('at, 'w) memory \<Rightarrow> bool" where
  "deleted Q m m' \<longleftrightarrow> mem_abstract m' = (\<lambda>q. if q \<in> Q then None else mem_abstract m q)
     \<and> mem_threads m' = (\<lambda>p. if \<exists>q\<in>Q. owns m q p then None else mem_threads m p)
     \<and> mem_next m' = mem_next m"

lemma deleted_memory_ok:
  assumes "memory_ok m" and d: "deleted Q m m'"
  shows "memory_ok m'"
proof -
  have own: "owns m' q p \<longleftrightarrow> q \<notin> Q \<and> owns m q p" for q p
    using d by (simp add: owns_def deleted_def)
  from assms(1) have inj: "owns m q p \<Longrightarrow> owns m q' p \<Longrightarrow> q = q'" for q q' p
    by (auto simp: memory_ok_def)
  show ?thesis
    using assms(1) d unfolding memory_ok_def own
    by (auto simp: deleted_def threads_ok_def dest: inj)
qed

lemma deleted_trans:
  assumes "deleted Q m m1" and "deleted R m1 m2"
  shows "deleted (Q \<union> R) m m2"
proof -
  have own: "owns m1 q p \<longleftrightarrow> q \<notin> Q \<and> owns m q p" for q p
    using assms(1) by (simp add: owns_def deleted_def)
  show ?thesis using assms unfolding deleted_def own by (auto simp: fun_eq_iff)
qed

lemma abstract_thread_dtor_outcome:
  assumes ok: "memory_ok m" and q: "mem_abstract m q = Some a"
  shows "\<exists>m'. abstract_thread_dtor P q m = Some (Inr (), m') \<and> deleted {q} m m'"
proof (cases "ab_thread a")
  case None
  then have "\<not> owns m q p" for p using q by (simp add: owns_def)
  with None q show ?thesis
    by (auto simp: abstract_thread_dtor_def thread_run deleted_def)
next
  case (Some p)
  from memory_ok_owned [OF ok q Some] obtain x
    where x: "mem_threads m p = Some x" "th_attr_ptr x = Some p" by (auto simp: thread_ok_def)
  obtain rc at' os' where c: "pthread_attr_destroy P (th_attr x) (mem_os m) = ((rc, at'), os')"
    by (metis surj_pair)
  have own: "owns m q p' \<longleftrightarrow> p' = p" for p' using q Some by (auto simp: owns_def)
  have "noexcept (thread_dtor P p) m = thread_dtor P p m"
    using thread_dtor_run [OF x c] by (simp add: noexcept_def)
  with thread_dtor_run [OF x c] q Some show ?thesis
    by (auto simp: deleted_def own abstract_thread_dtor_def thread_run bind_Inr bind_assoc fun_eq_iff)
qed

section \<open>The destructor of a group\<close>

lemma join_quietly_outcome:
  assumes ok: "memory_ok m" and q: "mem_abstract m q = Some a"
    and run: "join_quietly P t q m = Some (r, m')"
  shows "r = Inr () \<and> memory_ok m' \<and> mem_abstract m' = mem_abstract m \<and> mem_next m' = mem_next m
    \<and> (\<forall>p. \<not> owns m q p \<longrightarrow> mem_threads m' p = mem_threads m p)"
proof -
  obtain r1 m1 where join: "abstract_thread_join P t q m = Some (r1, m1)"
    using run by (cases "abstract_thread_join P t q m") (auto simp: join_quietly_def try_catch_def)
  have out: "memory_ok (m1\<lparr>mem_output := out\<rparr>) = memory_ok m1" for out
    by (simp add: memory_ok_def threads_ok_def owns_def)
  from abstract_thread_join_outcome [OF ok q join] join run out show ?thesis
    by (auto simp: join_quietly_def try_catch_def print_line_def modify_def split: if_splits)
qed

lemma join_quietly_returns:
  assumes "memory_ok m" and "mem_abstract m q = Some a" and "joins_return P"
  shows "join_quietly P t q m \<noteq> None"
  using abstract_thread_join_returns [OF assms, of t]
  by (auto simp: join_quietly_def try_catch_def print_line_def modify_def
      split: option.split sum.split failure.split prod.split)

text \<open>One round: the first thread is joined, if it was asked for, and deleted.\<close>

definition group_round ::
  "('at, 'w, 'z) thread_api_scheme \<Rightarrow> pthread_t \<Rightarrow> addr \<Rightarrow> thread_group \<Rightarrow> ('at, 'w, thread_group) thread_comp" where
  "group_round P t thread g' =
     scoped
       (if tg_destructor_joins_first g' then
          bind (abstract_thread_joinable thread) (\<lambda>joinable.
            seq (if joinable then join_quietly P t thread else ret ()) (ret g'))
        else ret g')
       (abstract_thread_dtor P thread)"

lemma group_round_delete:
  assumes "memory_ok m1" and "mem_abstract m1 = mem_abstract m" and "mem_next m1 = mem_next m"
    and others: "\<And>p. \<not> owns m q p \<Longrightarrow> mem_threads m1 p = mem_threads m p"
    and q: "mem_abstract m q = Some a"
  shows "\<exists>m'. abstract_thread_dtor P q m1 = Some (Inr (), m') \<and> deleted {q} m m'"
proof -
  from assms have "mem_abstract m1 q = Some a" by simp
  from abstract_thread_dtor_outcome [OF assms(1) this, of P] obtain m'
    where m': "abstract_thread_dtor P q m1 = Some (Inr (), m')" "deleted {q} m1 m'" by blast
  have own: "owns m1 = owns m" by (simp add: owns_def fun_eq_iff assms)
  have "deleted {q} m m'"
    using m'(2) assms(2,3) others unfolding deleted_def own by (auto simp: fun_eq_iff)
  with m'(1) show ?thesis by blast
qed

lemma group_round_outcome:
  assumes ok: "memory_ok m" and q: "mem_abstract m q = Some a"
  shows "group_round P t q g' m = Some (r, m') \<Longrightarrow> r = Inr g' \<and> deleted {q} m m'"
    and "\<not> tg_destructor_joins_first g' \<or> joins_return P \<Longrightarrow> group_round P t q g' m \<noteq> None"
proof -
  let ?joins = "tg_destructor_joins_first g' \<and> has_thread m q"
  define body where "body = (if tg_destructor_joins_first g' then
          bind (abstract_thread_joinable q) (\<lambda>joinable.
            seq (if joinable then join_quietly P t q else ret ()) (ret g'))
        else ret g')"
  have body: "body m = (if ?joins then seq (join_quietly P t q) (ret g') m else Some (Inr g', m))"
    using abstract_thread_joinable_run [OF ok q] by (simp add: body_def bind_def)
  have round: "group_round P t q g' m = scoped body (abstract_thread_dtor P q) m"
    by (simp only: group_round_def body_def)
  have ended: "body m = Some (Inr g', m1) \<Longrightarrow> \<exists>m'. group_round P t q g' m = Some (Inr g', m')
      \<and> deleted {q} m m'"
    if "memory_ok m1" "mem_abstract m1 = mem_abstract m" "mem_next m1 = mem_next m"
      "\<And>p. \<not> owns m q p \<Longrightarrow> mem_threads m1 p = mem_threads m p" for m1
    using group_round_delete [OF that q, of P]
    by (auto simp: round scoped_def noexcept_def bind_def)
  have cases: "body m = None \<and> ?joins \<and> join_quietly P t q m = None
      \<or> (\<exists>m1. body m = Some (Inr g', m1) \<and> memory_ok m1 \<and> mem_abstract m1 = mem_abstract m
          \<and> mem_next m1 = mem_next m \<and> (\<forall>p. \<not> owns m q p \<longrightarrow> mem_threads m1 p = mem_threads m p))"
  proof (cases "?joins")
    case False
    with ok show ?thesis by (intro disjI2 exI [of _ m]) (simp only: body if_False simp_thms)
  next
    case joins: True
    show ?thesis
    proof (cases "join_quietly P t q m")
      case None
      then have "seq (join_quietly P t q) (ret g') m = None" by (rule bind_None)
      with None joins show ?thesis by (simp only: body if_True simp_thms)
    next
      case (Some res)
      then obtain r1 m1 where j: "join_quietly P t q m = Some (r1, m1)" by (cases res) auto
      note out = join_quietly_outcome [OF ok q j]
      then have "seq (join_quietly P t q) (ret g') m = Some (Inr g', m1)"
        using j by (simp add: bind_Inr)
      then have "body m = Some (Inr g', m1)" using joins by (simp only: body if_True simp_thms)
      with out show ?thesis by blast
    qed
  qed
  have outcome: "group_round P t q g' m = None \<and> ?joins \<and> join_quietly P t q m = None
      \<or> (\<exists>m'. group_round P t q g' m = Some (Inr g', m') \<and> deleted {q} m m')"
    using cases
  proof
    assume none: "body m = None \<and> ?joins \<and> join_quietly P t q m = None"
    then have "group_round P t q g' m = None"
      by (simp add: round scoped_None)
    with none show ?thesis by blast
  next
    assume "\<exists>m1. body m = Some (Inr g', m1) \<and> memory_ok m1 \<and> mem_abstract m1 = mem_abstract m
      \<and> mem_next m1 = mem_next m \<and> (\<forall>p. \<not> owns m q p \<longrightarrow> mem_threads m1 p = mem_threads m p)"
    then obtain m1 where "body m = Some (Inr g', m1)" "memory_ok m1" "mem_abstract m1 = mem_abstract m"
      "mem_next m1 = mem_next m" "\<forall>p. \<not> owns m q p \<longrightarrow> mem_threads m1 p = mem_threads m p"
      by blast
    then show ?thesis using ended [of m1] by blast
  qed
  then show "group_round P t q g' m = Some (r, m') \<Longrightarrow> r = Inr g' \<and> deleted {q} m m'"
    by auto
  show "\<not> tg_destructor_joins_first g' \<or> joins_return P \<Longrightarrow> group_round P t q g' m \<noteq> None"
    using outcome join_quietly_returns [OF ok q, of P t] by auto
qed

lemma group_loop_outcome:
  fixes P :: "('at, 'w, 'z) thread_api_scheme" and t :: pthread_t
  defines "loop \<equiv> while_comp (\<lambda>g. tg_threads g \<noteq> [])
    (\<lambda>g. case tg_threads g of [] \<Rightarrow> undefined_behaviour
      | thread # rest \<Rightarrow> group_round P t thread (g\<lparr>tg_threads := rest\<rparr>))"
  assumes "memory_ok m" and "set (tg_threads g) \<subseteq> dom (mem_abstract m)" and "distinct (tg_threads g)"
  shows "(\<forall>r m'. loop g m = Some (r, m') \<longrightarrow> (\<exists>g'. r = Inr g') \<and> deleted (set (tg_threads g)) m m')
    \<and> (\<not> tg_destructor_joins_first g \<or> joins_return P \<longrightarrow> loop g m \<noteq> None)"
  using assms(2-)
proof (induction "tg_threads g" arbitrary: g m)
  case Nil
  then have "loop g m = Some (Inr g, m)" unfolding loop_def by (intro while_comp_stop) simp
  with Nil show ?case by (auto simp: deleted_def)
next
  case (Cons q rest)
  define g' where "g' = g\<lparr>tg_threads := rest\<rparr>"
  have ts: "tg_threads g = q # rest" and g': "tg_threads g' = rest"
      "tg_destructor_joins_first g' = tg_destructor_joins_first g"
    using Cons.hyps(2) by (simp_all add: g'_def)
  from Cons.prems(2) ts obtain a where q: "mem_abstract m q = Some a" by auto
  note round = group_round_outcome [OF Cons.prems(1) q, where P = P and t = t and g' = g']
  have go: "loop g m = bind (group_round P t q g') loop m"
    unfolding loop_def by (subst while_comp_go) (simp_all add: ts g'_def)
  show ?case
  proof (cases "group_round P t q g' m")
    case None
    with go round(2) g' show ?thesis by (auto simp: bind_def)
  next
    case (Some res)
    then obtain m1 where m1: "group_round P t q g' m = Some (Inr g', m1)" and del: "deleted {q} m m1"
      using round(1) by (cases res) auto
    have "memory_ok m1" using Cons.prems(1) del by (rule deleted_memory_ok)
    moreover have "set (tg_threads g') \<subseteq> dom (mem_abstract m1)" "distinct (tg_threads g')"
      using Cons.prems(2,3) del by (auto simp: ts g' deleted_def)
    ultimately have IH: "(\<forall>r m'. loop g' m1 = Some (r, m') \<longrightarrow>
          (\<exists>g'. r = Inr g') \<and> deleted (set (tg_threads g')) m1 m')
        \<and> (\<not> tg_destructor_joins_first g' \<or> joins_return P \<longrightarrow> loop g' m1 \<noteq> None)"
      using Cons.hyps(1) [of g' m1] g' by simp
    have "loop g m = loop g' m1" using go m1 by (simp add: bind_def)
    moreover have "deleted (set (tg_threads g)) m m'" if "deleted (set (tg_threads g')) m1 m'" for m'
      using deleted_trans [OF del that] by (simp add: ts g')
    ultimately show ?thesis using IH g' by auto
  qed
qed

text \<open>The destructor is that loop.\<close>

lemma thread_group_dtor_loop:
  "thread_group_dtor P t g = noexcept (bind (while_comp (\<lambda>g. tg_threads g \<noteq> [])
    (\<lambda>g. case tg_threads g of [] \<Rightarrow> undefined_behaviour
      | thread # rest \<Rightarrow> group_round P t thread (g\<lparr>tg_threads := rest\<rparr>)) g) (\<lambda>_. ret ()))"
proof -
  have body: "(\<lambda>g. case tg_threads g of [] \<Rightarrow> undefined_behaviour
      | thread # rest \<Rightarrow>
          scoped
            (bind (ret (g\<lparr>tg_threads := rest\<rparr>)) (\<lambda>g'.
               if tg_destructor_joins_first g' then
                 bind (abstract_thread_joinable thread) (\<lambda>joinable.
                   seq (if joinable then join_quietly P t thread else ret ()) (ret g'))
               else ret g'))
            (abstract_thread_dtor P thread))
    = (\<lambda>g. case tg_threads g of [] \<Rightarrow> undefined_behaviour
      | thread # rest \<Rightarrow> group_round P t thread (g\<lparr>tg_threads := rest\<rparr>))"
    by (rule ext) (simp add: group_round_def bind_ret_eta split: list.split)
  show ?thesis unfolding thread_group_dtor_def body ..
qed

lemma thread_group_dtor_outcome:
  assumes "memory_ok m" and "set (tg_threads g) \<subseteq> dom (mem_abstract m)" and "distinct (tg_threads g)"
  shows "thread_group_dtor P t g m = Some (r, m') \<Longrightarrow> r = Inr () \<and> deleted (set (tg_threads g)) m m'"
    and "\<not> tg_destructor_joins_first g \<or> joins_return P \<Longrightarrow> thread_group_dtor P t g m \<noteq> None"
  using group_loop_outcome [OF assms, of P t]
  unfolding thread_group_dtor_loop noexcept_def
  by (auto simp: bind_def split: option.splits sum.splits)

section \<open>Starting\<close>

context posix_threads
begin

text \<open>
  \<open>start\<close> always comes back.  Either the object owns a new thread that runs, or it throws
  and no object has changed; objects that existed before are never touched.
\<close>

lemma start_outcome:
  assumes ok: "memory_ok m" and q: "mem_abstract m q = Some a"
  shows "\<exists>r m'. abstract_thread_start P t q m = Some (r, m') \<and> memory_ok m'
    \<and> mem_next m' = Suc (mem_next m) \<and> (\<forall>p < mem_next m. mem_threads m' p = mem_threads m p)
    \<and> (r = Inr () \<and> has_thread m' q
         \<and> mem_abstract m' = (mem_abstract m)(q \<mapsto> a\<lparr>ab_thread := Some (mem_next m)\<rparr>)
         \<and> live (mem_os m') = live (mem_os m) + 1
       \<or> (\<exists>e. r = Inl (Thrown e)) \<and> mem_abstract m' = mem_abstract m
         \<and> mem_threads m' = mem_threads m \<and> live (mem_os m') = live (mem_os m))"
proof -
  let ?p = "mem_next m"
  define m0 where "m0 = m\<lparr>mem_next := Suc ?p\<rparr>"
  have free: "mem_threads m0 ?p = None" using ok by (simp add: m0_def memory_ok_def)
  obtain r m1 where c: "thread_ctor P t ?p q (ab_stack_size a) m0 = Some (r, m1)"
    and out: "r = Inr () \<and> live (mem_os m1) = live (mem_os m0) + 1
         \<and> (\<exists>x. mem_threads m1 = (mem_threads m0)(?p \<mapsto> x) \<and> thread_ok ?p x \<and> th_thread x \<noteq> 0)
       \<or> (\<exists>e. r = Inl (Thrown e)) \<and> live (mem_os m1) = live (mem_os m0)
         \<and> mem_threads m1 = mem_threads m0"
    and rest: "mem_abstract m1 = mem_abstract m0" "mem_next m1 = mem_next m0"
    using ctor_outcome [OF free, of t q "ab_stack_size a"] by (elim exE conjE) (rule that)
  have q1: "mem_abstract m1 q = Some a" using q rest by (simp add: m0_def)
  have new: "new_thread P t q (ab_stack_size a) m = bind (thread_ctor P t ?p q (ab_stack_size a)) (\<lambda>_. ret ?p) m0"
    by (simp add: new_thread_def new_object_def m0_def)
  have run: "abstract_thread_start P t q m = bind (new_thread P t q (ab_stack_size a)) (\<lambda>p.
         bind (the_abstract q) (\<lambda>a'. store_abstract q (Some (a'\<lparr>ab_thread := Some p\<rparr>)))) m"
    using q by (simp add: abstract_thread_start_def thread_run)
  from out show ?thesis
  proof (elim disjE conjE exE)
    fix e
    assume fails: "r = Inl (Thrown e)" "live (mem_os m1) = live (mem_os m0)"
      "mem_threads m1 = mem_threads m0"
    have "new_thread P t q (ab_stack_size a) m = Some (Inl (Thrown e), m1)"
      unfolding new by (rule bind_Inl) (simp add: c fails)
    then have "abstract_thread_start P t q m = Some (Inl (Thrown e), m1)"
      unfolding run by (rule bind_Inl)
    moreover have "memory_ok m1"
      using ok rest fails by (auto simp: memory_ok_def m0_def threads_ok_def owns_def)
    ultimately show ?thesis using fails rest by (auto simp: m0_def)
  next
    fix x
    assume works: "r = Inr ()" "live (mem_os m1) = live (mem_os m0) + 1"
      and x: "mem_threads m1 = (mem_threads m0)(?p \<mapsto> x)" "thread_ok ?p x" "th_thread x \<noteq> 0"
    define m2 where "m2 = m1\<lparr>mem_abstract := (mem_abstract m1)(q \<mapsto> a\<lparr>ab_thread := Some ?p\<rparr>)\<rparr>"
    have "new_thread P t q (ab_stack_size a) m = Some (Inr ?p, m1)"
      unfolding new using c works by (simp add: bind_Inr)
    then have "abstract_thread_start P t q m = Some (Inr (), m2)"
      unfolding run using q1 by (simp add: bind_Inr thread_run m2_def)
    moreover have own: "owns m2 u p \<longleftrightarrow> (if u = q then p = ?p else owns m u p)" for u p
      using rest by (auto simp: owns_def m2_def m0_def)
    moreover have "\<not> owns m u ?p" for u
      using ok unfolding memory_ok_def by (metis order_refl)
    moreover from this have "memory_ok m2"
      using ok x rest unfolding memory_ok_def own
      by (auto simp: m2_def m0_def threads_ok_def)
    ultimately show ?thesis
      using works x rest by (auto simp: m2_def m0_def has_thread_def)
  qed
qed

end

section \<open>Joining a group\<close>

lemma has_thread_join_other:
  assumes "memory_ok m" and "mem_abstract m' = mem_abstract m"
    and "\<forall>p. \<not> owns m q p \<longrightarrow> mem_threads m' p = mem_threads m p" and "u \<noteq> q"
  shows "has_thread m' u \<longleftrightarrow> has_thread m u"
proof -
  have own: "owns m' = owns m" using assms(2) by (simp add: owns_def fun_eq_iff)
  have "owns m u p \<Longrightarrow> \<not> owns m q p" for p using assms(1,4) by (auto simp: memory_ok_def)
  then show ?thesis unfolding has_thread_def own using assms(3) by metis
qed

text \<open>
  When \<open>join\<close> of a group returns, no thread of the group is left to join, and the others are as
  before, provided no join answers that the thread does not exist.
\<close>

lemma thread_group_join_outcome:
  assumes esrch: "\<And>u v w os. pthread_join P u v w \<noteq> Some (ESRCH, os)"
  shows "memory_ok m \<Longrightarrow> set qs \<subseteq> dom (mem_abstract m) \<Longrightarrow>
    for_each (\<lambda>q. bind (abstract_thread_joinable q) (\<lambda>joinable.
         if joinable then abstract_thread_join P t q else ret ())) qs m = Some (r, m') \<Longrightarrow>
    memory_ok m' \<and> mem_abstract m' = mem_abstract m
    \<and> (r = Inr () \<or> (\<exists>e. r = Inl (Thrown e) \<and> is_pthread_exception e))
    \<and> (\<forall>u. u \<notin> set qs \<longrightarrow> has_thread m' u = has_thread m u)
    \<and> (r = Inr () \<longrightarrow> (\<forall>q \<in> set qs. \<not> has_thread m' q))
    \<and> (\<forall>u. has_thread m' u \<longrightarrow> has_thread m u)"
proof (induction qs arbitrary: m)
  case (Cons q qs)
  let ?body = "\<lambda>q. bind (abstract_thread_joinable q) (\<lambda>joinable.
         if joinable then abstract_thread_join P t q else ret ())"
  from Cons.prems(2) obtain a where q: "mem_abstract m q = Some a" by auto
  have body: "?body q m = (if has_thread m q then abstract_thread_join P t q m else Some (Inr (), m))"
    using abstract_thread_joinable_run [OF Cons.prems(1) q] by (simp add: bind_Inr)
  have step: "memory_ok m1 \<and> mem_abstract m1 = mem_abstract m
      \<and> (s = Inr () \<or> (\<exists>e. s = Inl (Thrown e) \<and> is_pthread_exception e))
      \<and> (\<forall>u. u \<noteq> q \<longrightarrow> has_thread m1 u = has_thread m u)
      \<and> (s = Inr () \<longrightarrow> \<not> has_thread m1 q) \<and> (has_thread m1 q \<longrightarrow> has_thread m q)"
    if "?body q m = Some (s, m1)" for s m1
  proof (cases "has_thread m q")
    case True
    with that body have "abstract_thread_join P t q m = Some (s, m1)" by simp
    from abstract_thread_join_outcome [OF Cons.prems(1) q this] True esrch show ?thesis
      using has_thread_join_other [OF Cons.prems(1)] by blast
  next
    case False
    with that body Cons.prems(1) show ?thesis by auto
  qed
  from Cons.prems(3) have "bind (?body q) (\<lambda>_. for_each ?body qs) m = Some (r, m')" by simp
  then show ?case
  proof (cases rule: bind_Some_E)
    case (failed f)
    with step [OF failed(1)] show ?thesis by auto
  next
    case (went_on b m1)
    note s = step [OF went_on(1)]
    have "memory_ok m1" and "set qs \<subseteq> dom (mem_abstract m1)" using s Cons.prems(2) by auto
    from Cons.IH [OF this went_on(2)] s show ?thesis by auto
  qed
qed auto

section \<open>Starting a group\<close>

lemma has_thread_start_other:
  assumes ok: "memory_ok m" and "mem_abstract m' u = mem_abstract m u"
    and "\<forall>p < mem_next m. mem_threads m' p = mem_threads m p"
  shows "has_thread m' u \<longleftrightarrow> has_thread m u"
proof -
  have own: "owns m' u p \<longleftrightarrow> owns m u p" for p using assms(2) by (simp add: owns_def)
  have "p < mem_next m" if o: "owns m u p" for p
  proof -
    from o obtain a where "mem_abstract m u = Some a" "ab_thread a = Some p" by (auto simp: owns_def)
    from memory_ok_owned [OF ok this] show ?thesis by blast
  qed
  then show ?thesis unfolding has_thread_def own using assms(3) by metis
qed

context posix_threads
begin

text \<open>A prefix of the group is started; the rest is as it was.\<close>

lemma group_start_outcome:
  assumes "memory_ok m" and "set qs \<subseteq> dom (mem_abstract m)" and "distinct qs"
  shows "\<exists>r m' k. for_each (abstract_thread_start P t) qs m = Some (r, m') \<and> memory_ok m'
    \<and> (\<forall>u. u \<notin> set qs \<longrightarrow> mem_abstract m' u = mem_abstract m u \<and> has_thread m' u = has_thread m u)
    \<and> k \<le> length qs \<and> (\<forall>q \<in> set (take k qs). has_thread m' q)
    \<and> (\<forall>q \<in> set (drop k qs). mem_abstract m' q = mem_abstract m q)
    \<and> (r = Inr () \<and> k = length qs \<or> (\<exists>e. r = Inl (Thrown e)) \<and> k < length qs)"
  using assms
proof (induction qs arbitrary: m)
  case (Cons q qs)
  from Cons.prems(2) obtain a where q: "mem_abstract m q = Some a" by auto
  obtain r1 m1 where run: "abstract_thread_start P t q m = Some (r1, m1)" and ok1: "memory_ok m1"
    and old: "\<forall>p < mem_next m. mem_threads m1 p = mem_threads m p"
    and out: "r1 = Inr () \<and> has_thread m1 q
         \<and> mem_abstract m1 = (mem_abstract m)(q \<mapsto> a\<lparr>ab_thread := Some (mem_next m)\<rparr>)
         \<and> live (mem_os m1) = live (mem_os m) + 1
       \<or> (\<exists>e. r1 = Inl (Thrown e)) \<and> mem_abstract m1 = mem_abstract m
         \<and> mem_threads m1 = mem_threads m \<and> live (mem_os m1) = live (mem_os m)"
    using start_outcome [OF Cons.prems(1) q, of t] by (elim exE conjE) (rule that)
  note others = has_thread_start_other [OF Cons.prems(1) _ old]
  from out show ?case
  proof (elim disjE conjE exE)
    fix e
    assume e: "r1 = Inl (Thrown e)" "mem_abstract m1 = mem_abstract m"
    have "for_each (abstract_thread_start P t) (q # qs) m = Some (r1, m1)"
      using run e by (simp add: bind_def)
    with e ok1 others show ?thesis
      by (intro exI [of _ r1] exI [of _ m1] exI [of _ 0]) simp
  next
    assume works: "r1 = Inr ()" "has_thread m1 q"
      "mem_abstract m1 = (mem_abstract m)(q \<mapsto> a\<lparr>ab_thread := Some (mem_next m)\<rparr>)"
    have "set qs \<subseteq> dom (mem_abstract m1)" "distinct qs" using Cons.prems works by auto
    from Cons.IH [OF ok1 this] obtain r m' k where
      rest: "for_each (abstract_thread_start P t) qs m1 = Some (r, m')" "memory_ok m'"
      and same: "\<forall>u. u \<notin> set qs \<longrightarrow> mem_abstract m' u = mem_abstract m1 u \<and> has_thread m' u = has_thread m1 u"
      and k: "k \<le> length qs" "\<forall>q \<in> set (take k qs). has_thread m' q"
        "\<forall>q \<in> set (drop k qs). mem_abstract m' q = mem_abstract m1 q"
        "r = Inr () \<and> k = length qs \<or> (\<exists>e. r = Inl (Thrown e)) \<and> k < length qs" by blast
    have new: "q \<notin> set qs" using Cons.prems(3) by simp
    have "for_each (abstract_thread_start P t) (q # qs) m = Some (r, m')"
      using run works rest by (simp add: bind_def)
    moreover have "mem_abstract m' u = mem_abstract m u \<and> has_thread m' u = has_thread m u"
      if "u \<notin> set (q # qs)" for u
      using that same works others [of u] by simp
    moreover have "\<forall>u \<in> set (take (Suc k) (q # qs)). has_thread m' u"
      using k same works new by simp
    moreover have "\<forall>u \<in> set (drop (Suc k) (q # qs)). mem_abstract m' u = mem_abstract m u"
    proof
      fix u
      assume u: "u \<in> set (drop (Suc k) (q # qs))"
      then have "u \<noteq> q" using new in_set_dropD by fastforce
      with u k(3) works show "mem_abstract m' u = mem_abstract m u" by simp
    qed
    ultimately show ?thesis
      using rest(2) k by (intro exI [of _ r] exI [of _ m'] exI [of _ "Suc k"]) simp
  qed
qed auto

end

section \<open>Properties\<close>

text \<open>The calls a program makes on \<open>abstract_thread\<close> objects.\<close>

datatype abstract_call =
    Call_new addr size_t
  | Call_start addr
  | Call_join addr
  | Call_delete addr

fun run_call ::
  "('at, 'w, 'z) thread_api_scheme \<Rightarrow> pthread_t \<Rightarrow> abstract_call \<Rightarrow> ('at, 'w, unit) thread_comp" where
  "run_call P t (Call_new q stack_size) = abstract_thread_ctor q stack_size"
| "run_call P t (Call_start q) = abstract_thread_start P t q"
| "run_call P t (Call_join q) = abstract_thread_join P t q"
| "run_call P t (Call_delete q) = abstract_thread_dtor P q"

text \<open>A new object needs a free place, the others an object.\<close>

fun call_allowed :: "('at, 'w) memory \<Rightarrow> abstract_call \<Rightarrow> bool" where
  "call_allowed m (Call_new q _) = (mem_abstract m q = None)"
| "call_allowed m (Call_start q) = (mem_abstract m q \<noteq> None)"
| "call_allowed m (Call_join q) = (mem_abstract m q \<noteq> None)"
| "call_allowed m (Call_delete q) = (mem_abstract m q \<noteq> None)"

text \<open>A memory for the concrete instances: two \<open>abstract_thread\<close> objects, the first one started.\<close>

definition group_memory :: "(size_t, ref_os) memory" where
  "group_memory = ref_memory\<lparr>mem_abstract :=
     [10 \<mapsto> \<lparr>ab_thread = Some 1, ab_stack_size = 0\<rparr>, 11 \<mapsto> \<lparr>ab_thread = None, ab_stack_size = 65536\<rparr>]\<rparr>"

lemma group_memory_ok: "memory_ok group_memory"
  by (auto simp: memory_ok_def threads_ok_def thread_ok_def owns_def group_memory_def ref_memory_def
      split: if_splits)

text \<open>C28: every call on an \<open>abstract_thread\<close> keeps the memory well-formed: thread objects point to their
  own attributes, are threads exactly when they have an identifier, and are owned by at most one
  object; and no call does anything undefined or terminates the program.\<close>

theorem abstract_thread_calls_keep_memory:
  assumes "posix_threads P live" and ok: "memory_ok m" and "call_allowed m c"
    and run: "run_call P t c m = Some (r, m')"
  shows "memory_ok m' \<and> (r = Inr () \<or> (\<exists>e. r = Inl (Thrown e)))"
proof (cases c)
  case (Call_new q sz)
  with assms have free: "mem_abstract m q = None" by simp
  from run Call_new have m': "r = Inr ()"
    "m' = m\<lparr>mem_abstract := (mem_abstract m)(q \<mapsto> \<lparr>ab_thread = None, ab_stack_size = sz\<rparr>)\<rparr>"
    by (auto simp: abstract_thread_ctor_def store_abstract_run)
  have "owns m' = owns m" using free by (auto simp: m'(2) owns_def fun_eq_iff)
  with ok m' show ?thesis by (simp add: memory_ok_def threads_ok_def)
next
  case (Call_start q)
  with assms(3) obtain a where q: "mem_abstract m q = Some a" by auto
  from posix_threads.start_outcome [OF assms(1) ok q, of t] run Call_start show ?thesis by auto
next
  case (Call_join q)
  with assms(3) obtain a where q: "mem_abstract m q = Some a" by auto
  from abstract_thread_join_outcome [OF ok q, of P t r m'] run Call_join show ?thesis by auto
next
  case (Call_delete q)
  with assms(3) obtain a where q: "mem_abstract m q = Some a" by auto
  from abstract_thread_dtor_outcome [OF ok q, of P] run Call_delete show ?thesis
    using deleted_memory_ok [OF ok] by auto
qed

lemma abstract_thread_calls_keep_memory_witness:
  "\<exists>r m'. run_call ref_threads 9 (Call_start 11) group_memory = Some (r, m') \<and> memory_ok m'"
proof -
  have q: "mem_abstract group_memory 11 = Some \<lparr>ab_thread = None, ab_stack_size = 65536\<rparr>"
    by (simp add: group_memory_def)
  from ref_threads.start_outcome [OF group_memory_ok q, of 9] obtain r m'
    where "abstract_thread_start ref_threads 9 11 group_memory = Some (r, m')" by blast
  then have run: "run_call ref_threads 9 (Call_start 11) group_memory = Some (r, m')" by simp
  from abstract_thread_calls_keep_memory [OF ref_posix_threads group_memory_ok _ run] run q
  show ?thesis by auto
qed

text \<open>C22: the destructor of a group deletes every object of the group and the threads they own, and
  nothing else, without letting an exception out.  It comes back whenever it does not join, or
  \<open>pthread_join\<close> always comes back.\<close>

theorem thread_group_dtor_deletes:
  assumes "memory_ok m" and "set (tg_threads g) \<subseteq> dom (mem_abstract m)" and "distinct (tg_threads g)"
    and "\<not> destructor_joins_first g \<or> joins_return P"
  shows "\<exists>m'. thread_group_dtor P t g m = Some (Inr (), m') \<and> memory_ok m'
    \<and> deleted (set (tg_threads g)) m m'"
proof -
  from thread_group_dtor_outcome(2) [OF assms(1-3), of P t] assms(4)
  obtain r m' where run: "thread_group_dtor P t g m = Some (r, m')"
    by (auto simp: destructor_joins_first_def)
  from thread_group_dtor_outcome(1) [OF assms(1-3) run] run deleted_memory_ok [OF assms(1)]
  show ?thesis by blast
qed

lemma thread_group_dtor_deletes_witness:
  "\<exists>m'. thread_group_dtor ref_threads 9 (thread_group_add 11 (thread_group_add 10 (thread_group_ctor True)))
       group_memory = Some (Inr (), m') \<and> mem_abstract m' 10 = None \<and> mem_threads m' 1 = None
     \<and> mem_threads m' 2 \<noteq> None"
proof -
  let ?g = "thread_group_add 11 (thread_group_add 10 (thread_group_ctor True))"
  have ts: "tg_threads ?g = [10, 11]" by (simp add: thread_group_add_def thread_group_ctor_def)
  have "joins_return ref_threads" by (simp add: joins_return_def ref_threads_def ref_join_def)
  with thread_group_dtor_deletes [OF group_memory_ok, of ?g ref_threads 9] ts obtain m'
    where "thread_group_dtor ref_threads 9 ?g group_memory = Some (Inr (), m')"
      "deleted {10, 11} group_memory m'"
    by (auto simp: group_memory_def)
  then show ?thesis
    by (intro exI [of _ m']) (auto simp: deleted_def owns_def group_memory_def ref_memory_def)
qed

text \<open>C31: \<open>join\<close> of a group that returns has left no thread of the group to join, when no
  \<open>pthread_join\<close> answers \<open>ESRCH\<close>; the exceptions it throws are the library's, and the threads
  of other objects are as before.\<close>

theorem thread_group_join_joins_all:
  assumes "\<And>u v w os. pthread_join P u v w \<noteq> Some (ESRCH, os)"
    and "memory_ok m" and "set (tg_threads g) \<subseteq> dom (mem_abstract m)"
    and "thread_group_join P t g m = Some (r, m')"
  shows "(r = Inr () \<and> (\<forall>q \<in> set (tg_threads g). \<not> has_thread m' q)
      \<or> (\<exists>e. r = Inl (Thrown e) \<and> is_pthread_exception e))
    \<and> (\<forall>u. u \<notin> set (tg_threads g) \<longrightarrow> has_thread m' u = has_thread m u)"
  using thread_group_join_outcome [OF assms(1-3) assms(4) [unfolded thread_group_join_def]] by blast

lemma thread_group_join_joins_all_witness:
  "\<exists>m'. thread_group_join ref_threads 9 \<lparr>tg_threads = [10], tg_destructor_joins_first = False\<rparr>
       group_memory = Some (Inr (), m') \<and> \<not> has_thread m' 10"
proof -
  let ?g = "\<lparr>tg_threads = [10], tg_destructor_joins_first = False\<rparr>"
  have x: "mem_threads group_memory 1 = Some \<lparr>th_thread = 1, th_attr = 8388608, th_attr_ptr = Some 1, th_status = a_thread\<rparr>"
    by (simp add: group_memory_def ref_memory_def)
  have q: "mem_abstract group_memory 10 = Some \<lparr>ab_thread = Some 1, ab_stack_size = 0\<rparr>"
    by (simp add: group_memory_def)
  have has: "has_thread group_memory 10" using q x by (auto simp: has_thread_def owns_def)
  have "\<exists>m'. thread_join ref_threads 9 1 group_memory = Some (Inr (), m')"
    using thread_join_run [OF x, of ref_threads 9]
    by (simp add: thread_ok_def ref_threads_def ref_join_def group_memory_def ref_memory_def)
  then obtain m' where join: "thread_join ref_threads 9 1 group_memory = Some (Inr (), m')" by blast
  have run: "thread_group_join ref_threads 9 ?g group_memory = Some (Inr (), m')"
    using join abstract_thread_joinable_run [OF group_memory_ok q] has q
    by (simp add: thread_group_join_def bind_Inr abstract_thread_join_def thread_run bind_assoc)
  have "pthread_join ref_threads u v w \<noteq> Some (ESRCH, os)" for u v w os
    by (simp add: ref_threads_def ref_join_def errno_defs)
  from thread_group_join_joins_all [OF this group_memory_ok _ run] run q show ?thesis by auto
qed

text \<open>C30: \<open>start\<close> of a group always comes back.  Either every thread of the group runs, or an exception
  is thrown: then a prefix of the group runs and the rest is as it was.\<close>

theorem thread_group_start_prefix:
  assumes "posix_threads P live" and "memory_ok m" and "set (tg_threads g) \<subseteq> dom (mem_abstract m)"
    and "distinct (tg_threads g)"
  shows "\<exists>r m' k. thread_group_start P t g m = Some (r, m') \<and> memory_ok m'
    \<and> (\<forall>q \<in> set (take k (tg_threads g)). has_thread m' q)
    \<and> (\<forall>q \<in> set (drop k (tg_threads g)). mem_abstract m' q = mem_abstract m q)
    \<and> (r = Inr () \<and> k = length (tg_threads g) \<or> (\<exists>e. r = Inl (Thrown e)) \<and> k < length (tg_threads g))"
  using posix_threads.group_start_outcome [OF assms, of t] unfolding thread_group_start_def by blast

lemma thread_group_start_prefix_witness:
  "\<exists>m'. thread_group_start ref_threads 9 \<lparr>tg_threads = [11], tg_destructor_joins_first = False\<rparr>
       group_memory = Some (Inr (), m') \<and> has_thread m' 11 \<and> memory_ok m'"
proof -
  let ?g = "\<lparr>tg_threads = [11], tg_destructor_joins_first = False\<rparr>"
  have "map_option fst (thread_group_start ref_threads 9 ?g group_memory) = Some (Inr ())" by code_simp
  then show ?thesis
    using thread_group_start_prefix [OF ref_posix_threads group_memory_ok, of ?g 9]
    by (auto simp: group_memory_def)
qed

text \<open>C39: an \<open>abstract_thread\<close> that is started again forgets the thread it owned: that thread object still
  exists, with its attributes, and nobody owns it any more.\<close>

theorem abstract_thread_restart_leaks:
  assumes "posix_threads P live" and "memory_ok m" and "owns m q p"
    and "abstract_thread_start P t q m = Some (Inr (), m')"
  shows "mem_threads m' p = mem_threads m p \<and> mem_threads m' p \<noteq> None \<and> (\<forall>u. \<not> owns m' u p)"
proof -
  from assms(3) obtain a where q: "mem_abstract m q = Some a" and a: "ab_thread a = Some p"
    by (auto simp: owns_def)
  from memory_ok_owned [OF assms(2) q a] obtain x where x: "mem_threads m p = Some x" and p: "p < mem_next m"
    by blast
  from posix_threads.start_outcome [OF assms(1,2) q, of t] assms(4)
  have old: "\<forall>p < mem_next m. mem_threads m' p = mem_threads m p"
    and abs: "mem_abstract m' = (mem_abstract m)(q \<mapsto> a\<lparr>ab_thread := Some (mem_next m)\<rparr>)" by auto
  have "\<not> owns m' u p" for u
  proof
    assume "owns m' u p"
    then have "owns m u p \<and> u \<noteq> q" using abs p by (auto simp: owns_def split: if_splits)
    with assms(2,3) show False by (auto simp: memory_ok_def)
  qed
  with old p x show ?thesis by simp
qed

lemma abstract_thread_restart_leaks_witness:
  "\<exists>m'. abstract_thread_start ref_threads 9 10 group_memory = Some (Inr (), m')
     \<and> mem_threads m' 1 \<noteq> None \<and> \<not> owns m' 10 1"
proof -
  have own: "owns group_memory 10 1" by (simp add: owns_def group_memory_def)
  have "map_option fst (abstract_thread_start ref_threads 9 10 group_memory) = Some (Inr ())"
    by code_simp
  then obtain m' where run: "abstract_thread_start ref_threads 9 10 group_memory = Some (Inr (), m')"
    by (cases "abstract_thread_start ref_threads 9 10 group_memory") auto
  from abstract_thread_restart_leaks [OF ref_posix_threads group_memory_ok own run] run show ?thesis
    by blast
qed

end
