(* ===== verification/Exception_Types.thy ===== *)
theory Exception_Types
  imports Sync_Queue_Cxx98 Timed_Calls Thread_Group
begin

text \<open>
  The exception types of the library as a type system.  The classes of
  include/pthread/exceptions.hpp are ordered by derivation; a handler for a class takes the
  exceptions whose type is below it.  \<open>throws_only T m\<close> says that whatever leaves \<open>m\<close> is of a
  class of \<open>T\<close> or derived from one, whatever the system does; every method gets its signature.
\<close>

section \<open>The class hierarchy\<close>

datatype exception_type =
    Std_exception
  | Of_pthread pthread_exception_class
  | Of_queue queue_exception_class

text \<open>The class named after \<open>public\<close> in the declaration.\<close>

fun base_class :: "exception_type \<Rightarrow> exception_type option" where
  "base_class Std_exception = None"
| "base_class (Of_pthread c) = Some (if c = Base_exception then Std_exception else Of_pthread Base_exception)"
| "base_class (Of_queue c) = Some (if c = Queue_base then Std_exception else Of_queue Queue_base)"

fun type_of :: "exn \<Rightarrow> exception_type" where
  "type_of (Pthread_exn c _) = Of_pthread c"
| "type_of (Queue_exn c _) = Of_queue c"

text \<open>Derived classes are smaller: \<open>t \<le> s\<close> when a handler for \<open>s\<close> takes a \<open>t\<close>.\<close>

instantiation exception_type :: order
begin

definition less_eq_exception_type :: "exception_type \<Rightarrow> exception_type \<Rightarrow> bool" where
  "t \<le> s \<longleftrightarrow> t = s \<or> (case base_class t of None \<Rightarrow> False
     | Some b \<Rightarrow> b = s \<or> base_class b = Some s)"

definition less_exception_type :: "exception_type \<Rightarrow> exception_type \<Rightarrow> bool" where
  "t < s \<longleftrightarrow> t \<le> s \<and> t \<noteq> (s :: exception_type)"

lemma le_exception_type_iff:
  "t \<le> s \<longleftrightarrow> t = s \<or> s = Std_exception
     \<or> (\<exists>c. t = Of_pthread c) \<and> s = Of_pthread Base_exception
     \<or> (\<exists>c. t = Of_queue c) \<and> s = Of_queue Queue_base"
  by (cases t) (auto simp: less_eq_exception_type_def)

instance
  by intro_classes (auto simp: le_exception_type_iff less_exception_type_def)

end

text \<open>The order is derivation, in any number of steps, and no class is deeper than the test looks.\<close>

lemma le_is_derivation: "t \<le> s \<longleftrightarrow> (\<lambda>t s. base_class t = Some s)\<^sup>*\<^sup>* t s" (is "_ \<longleftrightarrow> ?D t s")
proof
  have step: "base_class t = Some s \<Longrightarrow> ?D t s" for t s by (rule r_into_rtranclp)
  assume "t \<le> s"
  then consider "t = s" | "base_class t = Some s"
    | b where "base_class t = Some b" "base_class b = Some s"
    by (auto simp: less_eq_exception_type_def split: option.splits)
  then show "?D t s" by cases (auto intro: step rtranclp_trans)
next
  show "?D t s \<Longrightarrow> t \<le> s"
  proof (induction rule: rtranclp_induct)
    case (step b u)
    from step.hyps(2) have "b \<le> u" by (simp add: less_eq_exception_type_def)
    with step.IH show ?case by (rule order_trans)
  qed simp
qed

text \<open>Which exceptions \<open>catch (pthread_exception &)\<close> takes.\<close>

lemma is_pthread_exception_iff: "is_pthread_exception e \<longleftrightarrow> type_of e \<le> Of_pthread Base_exception"
  by (cases e) (simp_all add: le_exception_type_iff)

lemma type_of_ctors [simp]:
  "type_of (pthread_exception f s n) = Of_pthread Base_exception"
  "type_of (mutex_exception f s n) = Of_pthread Mutex_exception"
  "type_of (read_write_lock_exception f s n) = Of_pthread Read_write_lock_exception"
  "type_of (condition_variable_exception f s n) = Of_pthread Condition_variable_exception"
  "type_of (thread_exception f s n) = Of_pthread Thread_exception"
  "type_of (queue_exception s) = Of_queue Queue_base"
  "type_of (queue_full s) = Of_queue Queue_full"
  "type_of (queue_timeout s) = Of_queue Queue_timeout"
  by (simp_all add: exception_defs)

section \<open>Signatures\<close>

definition within :: "exception_type set \<Rightarrow> exn \<Rightarrow> bool" where
  "within T e \<longleftrightarrow> (\<exists>s\<in>T. type_of e \<le> s)"

abbreviation throws_only :: "exception_type set \<Rightarrow> ('w, exn, 'a) comp \<Rightarrow> bool" where
  "throws_only T m \<equiv> may_throw (within T) m"

abbreviation never_throws :: "('w, exn, 'a) comp \<Rightarrow> bool" where
  "never_throws m \<equiv> throws_only {} m"

lemma withinI [throws]: "type_of e \<in> T \<Longrightarrow> within T e"
  by (auto simp: within_def)

lemma within_insert: "within T e \<Longrightarrow> within (insert s T) e"
  by (auto simp: within_def)

subsection \<open>Locks\<close>

abbreviation mutex_t :: exception_type where "mutex_t \<equiv> Of_pthread Mutex_exception"
abbreviation rwlock_t :: exception_type where "rwlock_t \<equiv> Of_pthread Read_write_lock_exception"
abbreviation cv_t :: exception_type where "cv_t \<equiv> Of_pthread Condition_variable_exception"
abbreviation thread_t :: exception_type where "thread_t \<equiv> Of_pthread Thread_exception"

lemma mutex_signature [throws]:
  assumes "mutex_t \<in> T"
  shows "throws_only T (mutex_ctor P m)" and "throws_only T (mutex_lock Q t m)"
    and "throws_only T (mutex_try_lock Q t m)" and "throws_only T (mutex_unlock Q t m)"
  using assms unfolding mutex_ctor_def mutex_lock_def mutex_try_lock_def mutex_unlock_def
  by (intro throws; simp)+

lemma mutex_dtor_signature [throws]: "may_throw E (mutex_dtor P m)"
  unfolding mutex_dtor_def by (intro throws)

lemma rwlock_signature [throws]:
  assumes "rwlock_t \<in> T"
  shows "throws_only T (read_lock_ctor P l)" and "throws_only T (read_lock_lock P t l)"
    and "throws_only T (read_lock_try_lock P t l)" and "throws_only T (read_lock_unlock P t l)"
    and "throws_only T (write_lock_lock P t l)" and "throws_only T (write_lock_try_lock P t l)"
  using assms unfolding read_lock_ctor_def read_lock_lock_def read_lock_try_lock_def
    read_lock_unlock_def write_lock_lock_def write_lock_try_lock_def
  by (intro throws; simp)+

lemma write_lock_ctor_signature [throws]: "rwlock_t \<in> T \<Longrightarrow> throws_only T (write_lock_ctor P l)"
  unfolding write_lock_ctor_def by (intro throws)

lemma rwlock_dtor_signature [throws]:
  "may_throw E (read_lock_dtor P l)" "may_throw E (write_lock_dtor P l)"
  unfolding write_lock_dtor_def read_lock_dtor_def by (intro throws)+

text \<open>A guard throws what its lock and the body throw; its destructor cannot throw.\<close>

lemma with_lock_guard_signature [throws]:
  "may_throw E (mt_lock A m) \<Longrightarrow> (\<And>g. may_throw E (body g)) \<Longrightarrow> may_throw E (with_lock_guard A m body)"
  unfolding with_lock_guard_def lock_guard_ctor_def Let_def by (intro throws) simp_all

subsection \<open>Condition variables\<close>

lemma cv_signature [throws]:
  assumes "cv_t \<in> T"
  shows "throws_only T (cv_ctor P c)" and "throws_only T (cv_dtor P c)"
    and "throws_only T (cv_notify_one P c)" and "throws_only T (cv_notify_all P c)"
    and "throws_only T (cv_milliseconds Q c millis)" and "throws_only T (timedwait_status P rc)"
  using assms unfolding cv_ctor_def cv_dtor_def cv_notify_one_def cv_notify_all_def
    cv_milliseconds_def timedwait_status_def
  by (intro throws; simp)+

lemma timedwait_signature [throws]: "may_throw E (timedwait P t c m)"
  unfolding timedwait_def by (simp add: may_throw_block [unfolded may_throw_def] may_throw_def)

lemma cv_wait_signature [throws]:
  "may_throw E (cv_wait P t c m)" "may_throw E (cv_wait_guard P t c g)"
  unfolding cv_wait_guard_def cv_wait_def by (intro throws)+

lemma cv_wait_pred_signature [throws]:
  assumes "may_throw E lambda"
  shows "may_throw E (cv_wait_pred P t c m lambda)" and "may_throw E (cv_wait_guard_pred P t c g lambda)"
  unfolding cv_wait_guard_pred_def cv_wait_pred_def by (intro throws assms)+

lemma cv_wait_for_signature [throws]:
  assumes "cv_t \<in> T"
  shows "throws_only T (cv_wait_for P t c m millis)" and "throws_only T (cv_wait_for_guard P t c g millis)"
  unfolding cv_wait_for_guard_def cv_wait_for_def by (intro throws assms)+

lemma cv_wait_for_pred_signature [throws]:
  assumes "cv_t \<in> T" and "throws_only T lambda"
  shows "throws_only T (cv_wait_for_pred P t c m millis lambda)"
    and "throws_only T (cv_wait_for_guard_pred P t c g millis lambda)"
  unfolding cv_wait_for_guard_pred_def cv_wait_for_pred_def by (intro throws assms)+

subsection \<open>The queue\<close>

lemma queue_part_signature [throws]:
  "may_throw E (take_front item)" "may_throw E (push_back x)"
  unfolding take_front_def push_back_def by (intro throws)+

lemma mutex_guard_signature [throws]:
  "mutex_t \<in> T \<Longrightarrow> (\<And>g. throws_only T (body g)) \<Longrightarrow>
     throws_only T (with_lock_guard (mutex_as_type P t) m body)"
  by (rule with_lock_guard_signature) (auto intro: throws)

lemma get_signature [throws]:
  assumes "mutex_t \<in> T" and "cv_t \<in> T"
  shows "throws_only T (sync_queue_get P t q item)" and "throws_only T (sync_queue_put P t q x)"
    and "throws_only T (sync_queue_put_98 P t q x)"
  unfolding sync_queue_get_def sync_queue_put_def sync_queue_put_98_def by (intro throws assms)+

lemma timed_while_signature [throws]: "cv_t \<in> T \<Longrightarrow> throws_only T (timed_while P t c m millis p)"
  unfolding timed_while_def timed_condition_def by (intro throws)

lemma get_timed_signature [throws]:
  assumes "mutex_t \<in> T" and "cv_t \<in> T" and "Of_queue Queue_timeout \<in> T"
  shows "throws_only T (sync_queue_get_timed P t q item wait_time)"
    and "throws_only T (sync_queue_get_timed_98 P t q' item wait_time)"
  unfolding sync_queue_get_timed_def sync_queue_get_timed_98_def
  by (intro throws; (rule assms)?; simp add: assms)+

lemma put_timed_signature [throws]:
  assumes "mutex_t \<in> T" and "cv_t \<in> T" and "Of_queue Queue_full \<in> T"
  shows "throws_only T (sync_queue_put_timed P t q x wait_time)"
    and "throws_only T (sync_queue_put_timed_98 P t q' x wait_time)"
  unfolding sync_queue_put_timed_def sync_queue_put_timed_98_def
  by (intro throws; (rule assms)?; simp add: assms)+

text \<open>The test of \<open>set_max_size\<close> cannot fail, so its exception cannot be thrown.\<close>

lemma size_signature [throws]:
  "may_throw E sync_queue_empty" "may_throw E sync_queue_size" "may_throw E sync_queue_max_size"
  "may_throw E (sync_queue_set_max_size n)"
  unfolding sync_queue_empty_def sync_queue_size_def sync_queue_max_size_def sync_queue_set_max_size_def
  by (simp_all add: throws)

lemma queue_ctor_signature [throws]:
  "mutex_t \<in> T \<Longrightarrow> cv_t \<in> T \<Longrightarrow> throws_only T (sync_queue_ctor P q n)"
  "mutex_t \<in> T \<Longrightarrow> cv_t \<in> T \<Longrightarrow> rwlock_t \<in> T \<Longrightarrow> throws_only T (sync_queue_ctor_98 P R q' n)"
  unfolding sync_queue_ctor_def sync_queue_ctor_98_def by (intro throws; assumption?)+

lemma queue_dtor_signature [throws]:
  "cv_t \<in> T \<Longrightarrow> throws_only T (sync_queue_dtor P q)"
  "cv_t \<in> T \<Longrightarrow> throws_only T (sync_queue_dtor_98 P R q')"
  unfolding sync_queue_dtor_def sync_queue_dtor_98_def by (intro throws; assumption?)+

subsection \<open>Threads\<close>

lemma thread_part_signature [throws]:
  "may_throw E (sys f)" "may_throw E (sys_block g)" "may_throw E (the_thread p)"
  "may_throw E (store_thread p x)" "may_throw E (update_thread p h)" "may_throw E (print_line s)"
  "may_throw E (attr_call k p)" "may_throw E (this_thread_get_id t)"
  "may_throw E (the_abstract q)" "may_throw E (store_abstract q y)"
  unfolding sys_def sys_block_def update_thread_def the_thread_def store_thread_def print_line_def
    attr_call_def this_thread_get_id_def the_abstract_def store_abstract_def
  by (intro throws)+

lemma thread_getter_signature [throws]:
  "may_throw E (thread_joinable p)" "may_throw E (thread_get_id p)" "may_throw E (thread_status_of p)"
  unfolding thread_joinable_def thread_get_id_def thread_status_of_def by (intro throws)+

lemma thread_move_signature [throws]:
  "may_throw E (thread_swap p q)" "may_throw E (thread_move_assign p q)"
  unfolding thread_move_assign_def thread_swap_def swap_member_def by (intro throws)+

lemma thread_dtor_signature [throws]: "may_throw E (thread_dtor P p)"
  unfolding thread_dtor_def by (intro throws)

lemma thread_signature [throws]:
  assumes "thread_t \<in> T"
  shows "throws_only T (thread_default_ctor P p)" and "throws_only T (thread_init P t p runner n)"
    and "throws_only T (thread_join P t p)"
  using assms unfolding thread_default_ctor_def thread_init_def thread_join_def
  by (intro throws; simp)+

lemma thread_ctor_signature [throws]:
  assumes "thread_t \<in> T"
  shows "throws_only T (thread_ctor P t p runner n)" and "throws_only T (thread_move_ctor P p q)"
  unfolding thread_ctor_def thread_move_ctor_def by (intro throws assms)+

lemma thread_stack_size_signature [throws]: "thread_t \<in> T \<Longrightarrow> throws_only T (thread_stack_size P p)"
  unfolding thread_stack_size_def by (intro throws; simp)

lemma sleep_for_signature [throws]:
  "Of_pthread Base_exception \<in> T \<Longrightarrow> throws_only T (sleep_for P millis)"
  unfolding sleep_for_def by (intro throws; simp)

text \<open>An exception of \<open>run\<close> terminates the program: none leaves the start routine.\<close>

lemma startup_signature [throws]: "may_throw E (thread_startup_runnable run runner)"
  unfolding thread_startup_runnable_def by (intro throws)

lemma abstract_thread_signature [throws]:
  assumes "thread_t \<in> T"
  shows "throws_only T (abstract_thread_start P t q)" and "throws_only T (abstract_thread_join P t q)"
  unfolding abstract_thread_start_def new_thread_def new_object_def abstract_thread_join_def
  by (intro throws assms)+

lemma abstract_thread_safe_signature [throws]:
  "may_throw E (abstract_thread_ctor q n)" "may_throw E (abstract_thread_dtor P q)"
  "may_throw E (abstract_thread_joinable q)"
  unfolding abstract_thread_ctor_def abstract_thread_dtor_def abstract_thread_joinable_def
  by (intro throws)+

lemma thread_group_signature [throws]:
  assumes "thread_t \<in> T"
  shows "throws_only T (thread_group_start P t g)" and "throws_only T (thread_group_join P t g)"
  unfolding thread_group_start_def thread_group_join_def by (intro throws assms)+

text \<open>The destructor of a group has a handler around \<open>join\<close>, and nothing else in it throws.\<close>

lemma join_quietly_signature [throws]: "may_throw E (join_quietly P t q)"
  unfolding join_quietly_def
  by (rule may_throw_try_catch, rule abstract_thread_signature [of UNIV]) (simp, intro throws)

lemma thread_group_dtor_signature [throws]: "may_throw E (thread_group_dtor P t g)"
  unfolding thread_group_dtor_def by (intro throws)

section \<open>No signature is too large\<close>

text \<open>
  The types a method of the queue does let out, on one system or another.  For the other
  direction there is a system that always answers the same, and nobody else.
\<close>

definition thrown_types :: "(clock_world cond_api \<Rightarrow> (clock_world, exn, 'b) comp) \<Rightarrow> exception_type set" where
  "thrown_types m = {type_of e | e P w w'. m P w = Some (Inl (Thrown e), w')}"

lemma thrown_typesI: "m P w = Some (Inl (Thrown e), w') \<Longrightarrow> type_of e = s \<Longrightarrow> s \<in> thrown_types m"
  by (auto simp: thrown_types_def)

lemma thrown_types_within:
  assumes "\<And>P. throws_only T (m P)"
    and "T \<inter> {Std_exception, Of_pthread Base_exception, Of_queue Queue_base} = {}"
  shows "thrown_types m \<subseteq> T"
proof
  fix s assume "s \<in> thrown_types m"
  then obtain e P w w' where run: "m P w = Some (Inl (Thrown e), w')" and s: "s = type_of e"
    by (auto simp: thrown_types_def)
  from may_throwD [OF assms(1) run] assms(2) s show "s \<in> T"
    by (auto simp: within_def le_exception_type_iff)
qed

definition still_api :: "int \<Rightarrow> int \<Rightarrow> clock_world cond_api" where
  "still_api lock_answer signal_answer = \<lparr>strerror = ref_strerror,
     pthread_mutex_init = (\<lambda>m w. (0, w)), pthread_mutex_destroy = (\<lambda>m w. (0, w)),
     pthread_mutex_lock = (\<lambda>t m w. Some (lock_answer, w)), pthread_mutex_trylock = (\<lambda>t m w. (0, w)),
     pthread_mutex_unlock = (\<lambda>t m w. (0, w)),
     pthread_cond_init = (\<lambda>c w. (0, w)), pthread_cond_destroy = (\<lambda>c w. (0, w)),
     pthread_cond_wait = (\<lambda>t c m w. None),
     pthread_cond_timedwait = (\<lambda>t c m ts w. Some (ETIMEDOUT, w)),
     pthread_cond_signal = (\<lambda>c w. (signal_answer, w)), pthread_cond_broadcast = (\<lambda>c w. (0, w)),
     gettimeofday = (\<lambda>w. ((0, clock_time 0), w))\<rparr>"

definition still_world :: "nat list \<Rightarrow> clock_world" where
  "still_world xs = clock_start\<lparr>q_items := xs\<rparr>"

lemma still_wait:
  "p w \<Longrightarrow> cv_wait_pred P t c m (gets p) w = Some (Inr True, w)"
  by (simp add: cv_wait_step)

lemma still_timed_wait:
  assumes "\<And>d. p (w\<lparr>cv_timeout := d\<rparr>) = p w"
  shows "\<exists>d. cv_wait_for_pred (still_api l s) t c m millis (gets p) w = Some (Inr (p w), w\<lparr>cv_timeout := d\<rparr>)"
proof -
  have now: "gettimeofday (still_api l s) w = ((0, clock_time 0), w)" by (simp add: still_api_def)
  have ok: "clock_ok (clock_time 0)" using clock_time_exact [of 0] by simp
  define v where "v = set_timeout c (timeout_after (clock_time 0) millis) w"
  have "timed_end (still_api l s) t c m p v (Inr (p v)) v" by (simp add: timed_end_def still_api_def)
  then have "cv_wait_for_pred (still_api l s) t c m millis (gets p) w = Some (Inr (p v), v)"
    unfolding cv_wait_for_pred_iff [OF now clock_ok_fits [OF ok]] v_def [symmetric] by (intro exI [of _ 0] exI [of _ v]) simp
  moreover have "p v = p w" by (simp add: v_def set_timeout_def assms)
  ultimately show ?thesis unfolding v_def set_timeout_def by auto
qed

lemma still_calls [simp]:
  "mutex_lock (still_api l s) t m w =
     Some (if l = 0 then Inr () else Inl (Thrown (mutex_exception ref_strerror ''pthread_mutex_lock failed.'' l)), w)"
  "mutex_unlock (still_api l s) t m w = Some (Inr (), w)"
  "cv_notify_all (still_api l s) c w = Some (Inr (), w)"
  "cv_notify_one (still_api l s) c w = Some (if s = 0 then Inr ()
     else Inl (Thrown (condition_variable_exception ref_strerror ''notify_all failed.'' s)), w)"
  by (simp_all add: mutex_lock_def mutex_unlock_def cv_notify_all_def cv_notify_one_def bind_def
      block_def call_def still_api_def)

text \<open>
  The bodies: the wait, the access to the list, the notification; with a waiting time, the access
  or a broadcast and the time-out.
\<close>

lemma still_body:
  assumes "p w" and "access w = Some (Inr (), u)"
  shows "seq (cv_wait_pred P t c m (gets p)) (seq access (cv_notify_one (still_api 0 1) c')) w
    = Some (Inl (Thrown (condition_variable_exception ref_strerror ''notify_all failed.'' 1)), u)"
  by (simp add: bind_def still_wait assms)

lemma still_timed_body:
  assumes stable: "\<And>d. p (w\<lparr>cv_timeout := d\<rparr>) = p w"
  shows "p w \<Longrightarrow> (\<And>d. \<exists>u. access (w\<lparr>cv_timeout := d\<rparr>) = Some (Inr (), u)) \<Longrightarrow>
      \<exists>w'. bind (cv_wait_for_pred (still_api 0 1) t c m millis (gets p)) (\<lambda>ready.
          if ready then seq access (cv_notify_one (still_api 0 1) c') else otherwise) w
        = Some (Inl (Thrown (condition_variable_exception ref_strerror ''notify_all failed.'' 1)), w')"
    and "\<not> p w \<Longrightarrow> \<exists>w'. bind (cv_wait_for_pred (still_api 0 0) t c m millis (gets p)) (\<lambda>ready.
          if ready then action else seq (cv_notify_all (still_api 0 0) c') (throw e)) w = Some (Inl (Thrown e), w')"
proof -
  assume "p w" and access: "\<And>d. \<exists>u. access (w\<lparr>cv_timeout := d\<rparr>) = Some (Inr (), u)"
  with still_timed_wait [of p w 0 1 t c m millis, OF stable] obtain d where
    run: "cv_wait_for_pred (still_api 0 1) t c m millis (gets p) w = Some (Inr True, w\<lparr>cv_timeout := d\<rparr>)"
    by auto
  from access [of d] obtain u where u: "access (w\<lparr>cv_timeout := d\<rparr>) = Some (Inr (), u)" by blast
  show "\<exists>w'. bind (cv_wait_for_pred (still_api 0 1) t c m millis (gets p)) (\<lambda>ready.
          if ready then seq access (cv_notify_one (still_api 0 1) c') else otherwise) w
        = Some (Inl (Thrown (condition_variable_exception ref_strerror ''notify_all failed.'' 1)), w')"
    by (simp add: bind_def run u)
next
  assume "\<not> p w"
  with still_timed_wait [of p w 0 0 t c m millis, OF stable] obtain d where
    run: "cv_wait_for_pred (still_api 0 0) t c m millis (gets p) w = Some (Inr False, w\<lparr>cv_timeout := d\<rparr>)"
    by auto
  show "\<exists>w'. bind (cv_wait_for_pred (still_api 0 0) t c m millis (gets p)) (\<lambda>ready.
          if ready then action else seq (cv_notify_all (still_api 0 0) c') (throw e)) w = Some (Inl (Thrown e), w')"
    by (simp add: bind_def run)
qed

lemma still_access:
  "\<exists>u. take_front item (still_world [x]\<lparr>cv_timeout := d\<rparr>) = Some (Inr (), u)"
  "\<exists>u. take_front item (still_world [x]) = Some (Inr (), u)"
  "\<exists>u. push_back y w = Some (Inr (), u)"
  by (simp_all add: take_front_def push_back_def comp_simps modify_def still_world_def)

lemma still_ready:
  "queue_not_empty (still_world [x])" "\<not> queue_not_empty (still_world [])"
  "queue_not_full (still_world [])" "\<not> queue_not_full (still_world [x])"
  "queue_not_empty (w\<lparr>cv_timeout := d\<rparr>) = queue_not_empty w"
  "queue_not_full (w\<lparr>cv_timeout := d\<rparr>) = queue_not_full w"
  by (simp_all add: still_world_def clock_start_def queue_not_empty_def queue_not_full_def has_room_def
      list_size_def int_to_size_t_def)

text \<open>A method that takes the mutex first: the lock fails, or the body throws.\<close>

lemma thrown_by_lock:
  assumes "\<And>P. queue_call P = with_lock_guard (mutex_as_type P t) m (body P)"
  shows "mutex_t \<in> thrown_types queue_call"
proof -
  have "queue_call (still_api 1 0) w
      = Some (Inl (Thrown (mutex_exception ref_strerror ''pthread_mutex_lock failed.'' 1)), w)" for w
    by (simp add: assms with_lock_guard_lock_fails)
  then show ?thesis by (rule thrown_typesI) simp
qed

lemma thrown_by_body:
  assumes "\<And>P. queue_call P = with_lock_guard (mutex_as_type P t) m (body P)"
    and "\<exists>w'. body (still_api 0 r) \<lparr>lg_mutex = m\<rparr> w = Some (Inl (Thrown e), w')"
  shows "type_of e \<in> thrown_types queue_call"
proof -
  from assms(2) obtain w' where "body (still_api 0 r) \<lparr>lg_mutex = m\<rparr> w = Some (Inl (Thrown e), w')" by blast
  then have "queue_call (still_api 0 r) w = Some (Inl (Thrown e), w')"
    by (simp add: assms(1) with_lock_guard_throws_iff)
  then show ?thesis by (rule thrown_typesI) simp
qed

abbreviation notify_error :: exn where
  "notify_error \<equiv> condition_variable_exception ref_strerror ''notify_all failed.'' 1"

lemma get_throws:
  "{mutex_t, cv_t} \<subseteq> thrown_types (\<lambda>P. sync_queue_get P t q item)"
  "{mutex_t, cv_t} \<subseteq> thrown_types (\<lambda>P. sync_queue_put P t q x)"
proof -
  obtain u where u: "take_front item (still_world [0]) = Some (Inr (), u)"
    using still_access(2) [of item 0] by blast
  obtain v where v: "push_back x (still_world []) = Some (Inr (), v)"
    using still_access(3) [of x "still_world []"] by blast
  note get = still_body [where p = queue_not_empty and access = "take_front item", OF still_ready(1) u]
  note put = still_body [where p = queue_not_full and access = "push_back x", OF still_ready(3) v]
  have "type_of notify_error \<in> thrown_types (\<lambda>P. sync_queue_get P t q item)"
    by (rule thrown_by_body [where queue_call = "\<lambda>P. sync_queue_get P t q item" and
      r = 1 and w = "still_world [0]", OF sync_queue_get_def])
      (simp add: cv_wait_guard_pred_def get)
  moreover have "type_of notify_error \<in> thrown_types (\<lambda>P. sync_queue_put P t q x)"
    by (rule thrown_by_body [where queue_call = "\<lambda>P. sync_queue_put P t q x" and
      r = 1 and w = "still_world []", OF sync_queue_put_def]) (simp add: put)
  ultimately show "{mutex_t, cv_t} \<subseteq> thrown_types (\<lambda>P. sync_queue_get P t q item)"
    and "{mutex_t, cv_t} \<subseteq> thrown_types (\<lambda>P. sync_queue_put P t q x)"
    using thrown_by_lock [of "\<lambda>P. sync_queue_get P t q item", OF sync_queue_get_def]
      thrown_by_lock [of "\<lambda>P. sync_queue_put P t q x", OF sync_queue_put_def]
    by simp_all
qed

lemma get_timed_throws:
  "{mutex_t, cv_t, Of_queue Queue_timeout} \<subseteq> thrown_types (\<lambda>P. sync_queue_get_timed P t q item wait_time)"
proof -
  note ready = still_timed_body(1) [where p = queue_not_empty and w = "still_world [0]"
      and access = "take_front item", OF still_ready(5) still_ready(1) still_access(1)]
  note late = still_timed_body(2) [where p = queue_not_empty and w = "still_world []",
      OF still_ready(5) still_ready(2)]
  have "type_of notify_error \<in> thrown_types (\<lambda>P. sync_queue_get_timed P t q item wait_time)"
    by (rule thrown_by_body [where queue_call = "\<lambda>P. sync_queue_get_timed P t q item wait_time" and
      r = 1 and w = "still_world [0]", OF sync_queue_get_timed_def])
      (simp only: cv_wait_for_guard_pred_def ready)
  moreover have "type_of (queue_timeout ''synchronized_queue::get() timed out.'')
      \<in> thrown_types (\<lambda>P. sync_queue_get_timed P t q item wait_time)"
    by (rule thrown_by_body [where queue_call = "\<lambda>P. sync_queue_get_timed P t q item wait_time" and
      r = 0 and w = "still_world []", OF sync_queue_get_timed_def])
      (simp only: cv_wait_for_guard_pred_def late)
  ultimately show ?thesis using thrown_by_lock [of "\<lambda>P. sync_queue_get_timed P t q item wait_time", OF sync_queue_get_timed_def]
    by simp
qed

lemma put_timed_throws:
  "{mutex_t, cv_t, Of_queue Queue_full} \<subseteq> thrown_types (\<lambda>P. sync_queue_put_timed P t q x wait_time)"
proof -
  note ready = still_timed_body(1) [where p = queue_not_full and w = "still_world []"
      and access = "push_back x", OF still_ready(6) still_ready(3) still_access(3)]
  note late = still_timed_body(2) [where p = queue_not_full and w = "still_world [0]",
      OF still_ready(6) still_ready(4)]
  have "type_of notify_error \<in> thrown_types (\<lambda>P. sync_queue_put_timed P t q x wait_time)"
    by (rule thrown_by_body [where queue_call = "\<lambda>P. sync_queue_put_timed P t q x wait_time" and
      r = 1 and w = "still_world []", OF sync_queue_put_timed_def])
      (simp only: cv_wait_for_guard_pred_def ready)
  moreover have "type_of (queue_full ''synchronized_queue::put() timeout, queue is full.'')
      \<in> thrown_types (\<lambda>P. sync_queue_put_timed P t q x wait_time)"
    by (rule thrown_by_body [where queue_call = "\<lambda>P. sync_queue_put_timed P t q x wait_time" and
      r = 0 and w = "still_world [0]", OF sync_queue_put_timed_def])
      (simp only: cv_wait_for_guard_pred_def late)
  ultimately show ?thesis using thrown_by_lock [of "\<lambda>P. sync_queue_put_timed P t q x wait_time", OF sync_queue_put_timed_def]
    by simp
qed

section \<open>Properties\<close>



text \<open>C21: The signatures of the queue are exact: each of the types is thrown on some system, for
  every queue and every waiting time, and no other is.  A handler for \<open>pthread_exception\<close> takes
  all of them but the time-outs.\<close>

theorem queue_signatures_exact:
  "thrown_types (\<lambda>P. sync_queue_get P t q item) = {mutex_t, cv_t}
   \<and> thrown_types (\<lambda>P. sync_queue_put P t q x) = {mutex_t, cv_t}
   \<and> thrown_types (\<lambda>P. sync_queue_get_timed P t q item wait_time) = {mutex_t, cv_t, Of_queue Queue_timeout}
   \<and> thrown_types (\<lambda>P. sync_queue_put_timed P t q x wait_time) = {mutex_t, cv_t, Of_queue Queue_full}
   \<and> {s. s \<le> Of_pthread Base_exception} \<inter> {mutex_t, cv_t, Of_queue Queue_timeout, Of_queue Queue_full}
       = {mutex_t, cv_t}"
proof (intro conjI)
  show "{s. s \<le> Of_pthread Base_exception} \<inter> {mutex_t, cv_t, Of_queue Queue_timeout, Of_queue Queue_full}
       = {mutex_t, cv_t}"
    by (auto simp: le_exception_type_iff)
qed (rule equalityI, rule thrown_types_within, (intro throws; simp), simp,
     rule get_throws get_timed_throws put_timed_throws)+

end
