(* ===== verification/Producers_Consumers.thy ===== *)
theory Producers_Consumers
  imports Sync_Queue_Progress "HOL-Library.Multiset"
begin

text \<open>
  Whole programs over the queue: every thread has a list of calls to make, one after the other,
  as the threads of tests/synchronized_queue_tests.cpp do.  When some threads only produce and
  the others only consume, and the numbers match, the program ends, whatever the scheduler does.
\<close>

section \<open>Programs\<close>

text \<open>A program gives each thread its calls; a configuration has the calls still to be started.\<close>

type_synonym 'a prog = "pthread_t \<Rightarrow> 'a op list"
type_synonym 'a config = "'a system \<times> 'a prog"

text \<open>A thread outside the queue starts its next call, or the threads inside the queue move.\<close>

inductive client_move :: "'a config \<Rightarrow> 'a config \<Rightarrow> bool" where
  call_next: "sys_pc s t = Idle \<Longrightarrow> todo t = op # rest \<Longrightarrow>
    client_move (s, todo) (goto t op Lock s, todo(t := rest))"
| go_on: "quiet_step s s' \<Longrightarrow> client_move (s, todo) (s', todo)"

text \<open>On the way there may be spurious wake-ups as well, any number of them.\<close>

inductive client_step :: "'a config \<Rightarrow> 'a config \<Rightarrow> bool" where
  moves: "client_move c c' \<Longrightarrow> client_step c c'"
| wakes_up: "sys_pc s t = Running op Waiting \<Longrightarrow>
    client_step (s, todo) (goto t op (Woken False) s, todo)"

definition begin_with :: "cint \<Rightarrow> 'a prog \<Rightarrow> 'a config" where
  "begin_with n prog = (initial n, prog)"

text \<open>Untimed calls, and no thread both produces and consumes.\<close>

definition one_kind :: "'a op list \<Rightarrow> bool" where
  "one_kind ops \<longleftrightarrow> (\<forall>op \<in> set ops. \<not> timed op)
     \<and> ((\<forall>op \<in> set ops. is_get op) \<or> (\<forall>op \<in> set ops. \<not> is_get op))"

definition separate :: "'a prog \<Rightarrow> bool" where
  "separate prog \<longleftrightarrow> (\<forall>t. one_kind (prog t))"

definition gets_in :: "'a prog \<Rightarrow> nat" where
  "gets_in prog = (\<Sum>t\<in>UNIV. length (filter is_get (prog t)))"

definition puts_in :: "'a prog \<Rightarrow> nat" where
  "puts_in prog = (\<Sum>t\<in>UNIV. length (filter (\<lambda>op. \<not> is_get op) (prog t)))"

fun put_items :: "'a op \<Rightarrow> 'a list" where
  "put_items (Get _) = []"
| "put_items (Put x _) = [x]"

definition items_in :: "'a prog \<Rightarrow> 'a multiset" where
  "items_in prog = (\<Sum>t\<in>UNIV. mset (concat (map put_items (prog t))))"

section \<open>The program ends\<close>

definition calls_left :: "'a prog \<Rightarrow> nat" where
  "calls_left todo = (\<Sum>t\<in>UNIV. length (todo t))"

text \<open>A call that starts weighs less than a call that has not started.\<close>

definition config_weight :: "'a config \<Rightarrow> nat" where
  "config_weight c = total_weight (fst c) + (rounds + 8) * calls_left (snd c)"

lemma client_move_weight: "client_move c c' \<Longrightarrow> config_weight c' < config_weight c"
proof (induction rule: client_move.induct)
  case (call_next s t todo op rest)
  have "calls_left (todo(t := rest)) + length (todo t) = calls_left todo + length rest"
    unfolding calls_left_def by (rule sum_upd)
  then have "calls_left todo = Suc (calls_left (todo(t := rest)))" using call_next by simp
  moreover have "total_weight (goto t op Lock s) = total_weight s + (rounds + 7)"
    using total_weight_goto [of t op Lock s] call_next by simp
  ultimately show ?case by (simp add: config_weight_def)
next
  case (go_on s s' todo)
  then show ?case using quiet_step_weight by (simp add: config_weight_def)
qed

lemma no_endless_program: "\<nexists>f. \<forall>i::nat. client_move (f i) (f (Suc i))"
proof
  assume "\<exists>f. \<forall>i::nat. client_move (f i) (f (Suc i) :: 'a config)"
  then obtain f :: "nat \<Rightarrow> 'a config" where f: "client_move (f i) (f (Suc i))" for i by blast
  have "config_weight (f i) + i \<le> config_weight (f 0)" for i
  proof (induction i)
    case (Suc i)
    with client_move_weight [OF f [of i]] show ?case by simp
  qed simp
  from this [of "Suc (config_weight (f 0))"] show False by simp
qed

lemma program_ends: "\<exists>c'. client_move\<^sup>*\<^sup>* c c' \<and> (\<nexists>c''. client_move c' c'')"
proof (induction "config_weight c" arbitrary: c rule: less_induct)
  case less
  show ?case
  proof (cases "\<exists>c1. client_move c c1")
    case True
    then obtain c1 where "client_move c c1" by blast
    with less [OF client_move_weight [OF this]] show ?thesis by (meson converse_rtranclp_into_rtranclp)
  next
    case False
    then show ?thesis by blast
  qed
qed

section \<open>No call is lost\<close>

text \<open>
  The calls that a thread has not done yet: the one it is in, until it has changed the list, and
  those it has not started.  Those that are done are in the history of the system.
\<close>

fun doing :: "'a pc \<Rightarrow> 'a op list" where
  "doing Idle = []"
| "doing (Running op st) = (case st of Notify \<Rightarrow> [] | Fail \<Rightarrow> [] | Unlock _ \<Rightarrow> [] | _ \<Rightarrow> [op])"

definition undone :: "'a system \<Rightarrow> 'a prog \<Rightarrow> pthread_t \<Rightarrow> 'a op multiset" where
  "undone s todo t = mset (doing (sys_pc s t)) + mset (todo t)"

definition done_calls :: "'a system \<Rightarrow> 'a op multiset" where
  "done_calls s = image_mset (\<lambda>x. Put x False) (mset (sys_put s))
     + replicate_mset (length (sys_got s)) (Get False)"

lemma doing_wake [simp]: "doing (wake_pc p) = doing p"
  by (cases p rule: wake_pc.cases) auto

text \<open>A move inside the queue leaves all as it is, or gets one call done.\<close>

lemma quiet_step_calls:
  assumes "quiet_step s s'" and timing: "inv_timed s"
    and untimed: "\<And>t op. op \<in># undone s todo t \<Longrightarrow> \<not> timed op"
  shows "undone s' todo = undone s todo \<and> done_calls s' = done_calls s
    \<or> (\<exists>t op. undone s todo t = add_mset op (undone s' todo t)
        \<and> (\<forall>u. u \<noteq> t \<longrightarrow> undone s' todo u = undone s todo u)
        \<and> done_calls s' = add_mset op (done_calls s))"
proof -
  have here: "\<not> timed op" if "sys_pc s t = Running op st" "op \<in> set (doing (sys_pc s t))" for t op st
    using untimed [of op t] that by (simp add: undone_def)
  have in_time: "late st \<Longrightarrow> timed op" if "sys_pc s t = Running op st" for t op st
    using timing that by (auto simp: inv_timed_def dest: spec [of _ t])
  from assms(1) obtain v where "step s s'" and v: "moving s v" "sys_pc s' v \<noteq> sys_pc s v"
    by (auto simp: quiet_step_def)
  from this(1) show ?thesis
  proof cases
    case (start t op)
    with v show ?thesis by (auto simp: moving_def split: if_splits)
  next
    case (refused t op)
    with here [of t op] show ?thesis by simp
  next
    case (give_up t op)
    with here [of t op] in_time [of t op] show ?thesis by simp
  next
    case (time_out t op)
    with here [of t op] show ?thesis by simp
  next
    case (take t b x rest)
    with here [of t "Get b"] show ?thesis
      by (intro disjI2 exI [of _ t] exI [of _ "Get b"]) (auto simp: undone_def done_calls_def)
  next
    case (push t x b)
    with here [of t "Put x b"] show ?thesis
      by (intro disjI2 exI [of _ t] exI [of _ "Put x b"]) (auto simp: undone_def done_calls_def)
  qed (auto simp: undone_def done_calls_def fun_eq_iff)
qed

definition inv_program :: "cint \<Rightarrow> 'a prog \<Rightarrow> 'a config \<Rightarrow> bool" where
  "inv_program n prog c \<longleftrightarrow> reachable n (fst c)
     \<and> (\<forall>t. set_mset (undone (fst c) (snd c) t) \<subseteq> set (prog t))
     \<and> done_calls (fst c) + (\<Sum>t\<in>UNIV. undone (fst c) (snd c) t) = (\<Sum>t\<in>UNIV. mset (prog t))"

lemma inv_program_begin: "inv_program n prog (begin_with n prog)"
  by (simp add: inv_program_def begin_with_def reach_init undone_def done_calls_def)

lemma inv_program_same:
  assumes "inv_program n prog (s, todo)" and "step s s'"
    and "undone s' todo' = undone s todo" and "done_calls s' = done_calls s"
  shows "inv_program n prog (s', todo')"
  using assms by (auto simp: inv_program_def intro: reach_step)

lemma inv_program_move:
  assumes prog: "separate prog" and "client_move c c'" and inv: "inv_program n prog c"
  shows "inv_program n prog c'"
  using assms(2)
proof cases
  case (call_next s t todo op rest)
  have "step s (goto t op Lock s)" using call_next(3) by (rule step.start)
  moreover have "undone (goto t op Lock s) (todo(t := rest)) = undone s todo"
    using call_next by (auto simp: undone_def fun_eq_iff)
  moreover have "done_calls (goto t op Lock s) = done_calls s" by (simp add: done_calls_def)
  ultimately show ?thesis
    using inv unfolding call_next(1,2) by (rule inv_program_same [rotated])
next
  case (go_on s s' todo)
  have r: "reachable n s" using inv go_on(1) by (simp add: inv_program_def)
  have sub: "set_mset (undone s todo t) \<subseteq> set (prog t)" for t
    using inv go_on(1) by (simp add: inv_program_def)
  with prog have untimed: "op \<in># undone s todo t \<Longrightarrow> \<not> timed op" for t op
    unfolding separate_def one_kind_def by (meson subsetD)
  from quiet_step_calls [where todo = todo, OF go_on(3) timing.holds [OF r]] untimed
  consider "undone s' todo = undone s todo" "done_calls s' = done_calls s"
    | t op where "undone s todo t = add_mset op (undone s' todo t)"
      "\<And>u. u \<noteq> t \<Longrightarrow> undone s' todo u = undone s todo u" "done_calls s' = add_mset op (done_calls s)"
    by blast
  then show ?thesis
  proof cases
    case 1
    with inv go_on show ?thesis by (auto simp: quiet_step_def intro: inv_program_same)
  next
    case 2
    have "set_mset (undone s' todo u) \<subseteq> set (prog u)" for u
      using sub [of u] 2(1,2) by (cases "u = t") auto
    moreover have "done_calls s' + (\<Sum>u\<in>UNIV. undone s' todo u) = done_calls s + (\<Sum>u\<in>UNIV. undone s todo u)"
      using sum_change [of t "undone s' todo" "undone s todo"] 2 by simp
    moreover have "reachable n s'" using r go_on(3) by (auto simp: quiet_step_def intro: reach_step)
    ultimately show ?thesis using inv go_on(1,2) by (simp add: inv_program_def)
  qed
qed

lemma inv_program_step:
  assumes "separate prog" and "client_step c c'" and inv: "inv_program n prog c"
  shows "inv_program n prog c'"
  using assms(2)
proof cases
  case moves
  then show ?thesis using inv_program_move [OF assms(1)] inv by blast
next
  case (wakes_up s t op todo)
  show ?thesis
    using inv unfolding wakes_up(1,2)
    by (rule inv_program_same) (use wakes_up(3) in
        \<open>auto simp: undone_def done_calls_def fun_eq_iff intro: step.spurious\<close>)
qed

lemma inv_program_run:
  "client_step\<^sup>*\<^sup>* c c' \<Longrightarrow> separate prog \<Longrightarrow> inv_program n prog c \<Longrightarrow> inv_program n prog c'"
  by (induction rule: rtranclp_induct) (auto intro: inv_program_step)

section \<open>At rest\<close>

lemma additive_sum:
  assumes "h 0 = 0" and "\<And>M N. h (M + N) = h M + h N"
  shows "h (\<Sum>t\<in>A. f t) = (\<Sum>t\<in>A. h (f t))"
  by (induction A rule: infinite_finite_induct) (simp_all add: assms)

lemma filter_replicate: "filter_mset Q (replicate_mset k x) = (if Q x then replicate_mset k x else {#})"
  by (induction k) auto

text \<open>The calls of a kind, counted.\<close>

lemma calls_of_kind:
  assumes "inv_program n prog (s, todo)"
  shows "length (sys_got s) + (\<Sum>t\<in>UNIV. size (filter_mset is_get (undone s todo t))) = gets_in prog"
    and "length (sys_put s) + (\<Sum>t\<in>UNIV. size (filter_mset (\<lambda>op. \<not> is_get op) (undone s todo t))) = puts_in prog"
proof -
  have all: "done_calls s + (\<Sum>t\<in>UNIV. undone s todo t) = (\<Sum>t\<in>UNIV. mset (prog t))"
    using assms by (simp add: inv_program_def)
  have kind: "size (filter_mset Q (\<Sum>t\<in>UNIV. f t)) = (\<Sum>t\<in>UNIV. size (filter_mset Q (f t)))"
    for Q and f :: "pthread_t \<Rightarrow> 'a op multiset"
    by (rule additive_sum) simp_all
  have total: "size (filter_mset Q (done_calls s)) + (\<Sum>t\<in>UNIV. size (filter_mset Q (undone s todo t)))
      = (\<Sum>t\<in>UNIV. length (filter Q (prog t)))" for Q
    using arg_cong [OF all, of "\<lambda>M. size (filter_mset Q M)"]
    by (simp add: kind mset_filter [symmetric] del: mset_filter)
  have "size (filter_mset is_get (done_calls s)) = length (sys_got s)"
    and "size (filter_mset (\<lambda>op. \<not> is_get op) (done_calls s)) = length (sys_put s)"
    by (simp_all add: done_calls_def filter_mset_image_mset filter_replicate)
  then show "length (sys_got s) + (\<Sum>t\<in>UNIV. size (filter_mset is_get (undone s todo t))) = gets_in prog"
    and "length (sys_put s) + (\<Sum>t\<in>UNIV. size (filter_mset (\<lambda>op. \<not> is_get op) (undone s todo t))) = puts_in prog"
    using total [of is_get] total [of "\<lambda>op. \<not> is_get op"] by (simp_all add: gets_in_def puts_in_def)
qed

text \<open>The items that the calls bring.\<close>

lemma items_of_calls:
  assumes "inv_program n prog (s, todo)" and "\<And>t. undone s todo t = {#}"
  shows "mset (sys_put s) = items_in prog"
proof -
  define brings where "brings M = (\<Sum>op\<in>#M. mset (put_items op))" for M :: "'a op multiset"
  have all: "brings (\<Sum>t\<in>UNIV. f t) = (\<Sum>t\<in>UNIV. brings (f t))" for f :: "pthread_t \<Rightarrow> 'a op multiset"
    by (rule additive_sum) (simp_all add: brings_def)
  have "brings (mset ops) = mset (concat (map put_items ops))" for ops
    by (induction ops) (simp_all add: brings_def)
  moreover have "brings (done_calls s) = mset (sys_put s)"
    by (simp add: brings_def done_calls_def image_mset.compositionality comp_def)
  moreover have "done_calls s = (\<Sum>t\<in>UNIV. mset (prog t))"
    using assms by (simp add: inv_program_def)
  ultimately show ?thesis by (metis (no_types, lifting) all items_in_def sum.cong)
qed

definition finished :: "'a prog \<Rightarrow> 'a config \<Rightarrow> bool" where
  "finished prog c \<longleftrightarrow> (\<forall>t. sys_pc (fst c) t = Idle \<and> snd c t = [])
     \<and> length (sys_got (fst c)) = gets_in prog
     \<and> mset (sys_got (fst c) @ sys_items (fst c)) = items_in prog"

lemma at_rest:
  assumes inv: "inv_program n prog (s, todo)" and rest: "\<nexists>c'. client_move (s, todo) c'"
  shows "sys_pc s t = Idle \<and> undone s todo t = {#} \<or> (\<exists>op. sys_pc s t = Running op Waiting
      \<and> (if is_get op then sys_items s = [] else length (sys_items s) = capacity n))"
proof (cases "sys_pc s t")
  case Idle
  then have "todo t = []" using rest call_next [OF Idle] by (metis list.exhaust)
  with Idle show ?thesis by (simp add: undone_def)
next
  case (Running op st)
  have "reachable n s" using inv by (simp add: inv_program_def)
  then have "settled n s" by (rule no_quiet_step_settled) (use rest go_on in blast)
  with Running show ?thesis by (auto simp: settled_def dest: spec [of _ t])
qed

text \<open>All threads that wait, wait for the same, and have calls of that kind only.\<close>

lemma at_rest_one_kind:
  assumes inv: "inv_program n prog (s, todo)" and prog: "separate prog"
    and rest: "\<nexists>c'. client_move (s, todo) c'" and cap: "0 < capacity n"
    and w: "sys_pc s t = Running op Waiting" and op': "op' \<in># undone s todo u"
  shows "is_get op' = is_get op"
proof -
  from op' at_rest [OF inv rest, of u] obtain op1 where u: "sys_pc s u = Running op1 Waiting"
    and 1: "if is_get op1 then sys_items s = [] else length (sys_items s) = capacity n" by auto
  have "is_get op1 = is_get op" using 1 at_rest [OF inv rest, of t] w cap by (auto split: if_splits)
  moreover have "op1 \<in> set (prog u)" "op' \<in> set (prog u)"
    using inv op' u by (auto simp: inv_program_def undone_def subset_iff)
  ultimately show ?thesis using prog unfolding separate_def one_kind_def by metis
qed

text \<open>So nobody waits: there would be too few items for all readers, or too many for the queue.\<close>

lemma at_rest_idle:
  assumes inv: "inv_program n prog (s, todo)" and prog: "separate prog"
    and rest: "\<nexists>c'. client_move (s, todo) c'" and cap: "0 < capacity n"
    and enough: "gets_in prog \<le> puts_in prog" "puts_in prog \<le> gets_in prog + capacity n"
  shows "sys_pc s t = Idle"
proof (rule ccontr)
  assume "sys_pc s t \<noteq> Idle"
  then obtain op where w: "sys_pc s t = Running op Waiting"
    and full: "if is_get op then sys_items s = [] else length (sys_items s) = capacity n"
    using at_rest [OF inv rest, of t] by auto
  define count where
    "count g = (\<Sum>u\<in>UNIV. size (filter_mset (\<lambda>op. is_get op = g) (undone s todo u)))" for g
  have calls: "length (sys_got s) + count True = gets_in prog" "length (sys_put s) + count False = puts_in prog"
    using calls_of_kind [OF inv] by (simp_all add: count_def)
  have "reachable n s" using inv by (simp add: inv_program_def)
  then have fifo: "length (sys_put s) = length (sys_got s) + length (sys_items s)"
    using fifo.holds by (fastforce simp: inv_fifo_def)
  have "count (\<not> is_get op) = 0"
    using at_rest_one_kind [OF inv prog rest cap w] by (auto simp: count_def)
  moreover have "op \<in># undone s todo t" using w by (simp add: undone_def)
  then have "size (filter_mset (\<lambda>op'. is_get op' = is_get op) (undone s todo t)) \<noteq> 0" by auto
  then have "count (is_get op) \<noteq> 0" unfolding count_def by (metis finite iso_tuple_UNIV_I sum_eq_0_iff)
  ultimately show False using calls fifo full enough by (cases "is_get op") auto
qed

text \<open>Where all threads have made all their calls, all items are accounted for.\<close>

lemma all_done_finished:
  assumes inv: "inv_program n prog (s, todo)" and ended: "\<And>t. sys_pc s t = Idle \<and> todo t = []"
  shows "finished prog (s, todo)"
proof -
  have none: "undone s todo t = {#}" for t using ended by (simp add: undone_def)
  have "length (sys_got s) = gets_in prog" using calls_of_kind(1) [OF inv] none by simp
  moreover have "reachable n s" using inv by (simp add: inv_program_def)
  then have "sys_put s = sys_got s @ sys_items s" using fifo.holds by (fastforce simp: inv_fifo_def)
  ultimately show ?thesis using items_of_calls [OF inv none] ended by (simp add: finished_def)
qed

lemma at_rest_finished:
  assumes inv: "inv_program n prog (s, todo)" and "separate prog"
    and rest: "\<nexists>c'. client_move (s, todo) c'" and "0 < capacity n"
    and "gets_in prog \<le> puts_in prog" "puts_in prog \<le> gets_in prog + capacity n"
  shows "finished prog (s, todo)"
proof (rule all_done_finished [OF inv])
  fix t
  have idle: "sys_pc s t = Idle" using assms by (rule at_rest_idle)
  then have "undone s todo t = {#}" using at_rest [OF inv rest, of t] by auto
  with idle show "sys_pc s t = Idle \<and> todo t = []" by (simp add: undone_def)
qed

section \<open>Properties\<close>

text \<open>C2: Producers and consumers come to their end.  When every thread makes untimed calls of one
  kind only, the queue has room for an item, and there are enough items for all \<open>get\<close> calls and
  no more left over than fit the queue, then from every state the program can reach, after any
  number of spurious wake-ups: the threads do not move for ever, and where they stop every thread
  has made all its calls, and the items got and those in the list are the items put, each once.\<close>

theorem producers_and_consumers_finish:
  assumes "separate prog" and "0 < capacity n"
    and "gets_in prog \<le> puts_in prog" and "puts_in prog \<le> gets_in prog + capacity n"
    and "client_step\<^sup>*\<^sup>* (begin_with n prog) c"
  shows "(\<nexists>f. f 0 = c \<and> (\<forall>i::nat. client_move (f i) (f (Suc i))))
    \<and> (\<forall>c'. client_move\<^sup>*\<^sup>* c c' \<longrightarrow> (\<nexists>c''. client_move c' c'') \<longrightarrow> finished prog c')"
proof (intro conjI allI impI)
  show "\<nexists>f. f 0 = c \<and> (\<forall>i::nat. client_move (f i) (f (Suc i)))" using no_endless_program by blast
next
  fix c'
  assume run: "client_move\<^sup>*\<^sup>* c c'" and rest: "\<nexists>c''. client_move c' c''"
  have "client_move \<le> client_step" by (auto intro: moves)
  with run have "client_step\<^sup>*\<^sup>* c c'" by (metis rtranclp_mono predicate2D)
  with assms(5) have "client_step\<^sup>*\<^sup>* (begin_with n prog) c'" by (rule rtranclp_trans)
  then have "inv_program n prog c'" by (rule inv_program_run) (rule assms(1) inv_program_begin)+
  with rest show "finished prog c'" using at_rest_finished assms(1-4) by (cases c') simp
qed

text \<open>The two conditions on the numbers are necessary.\<close>

theorem finished_programs_are_balanced:
  assumes "separate prog" and "client_step\<^sup>*\<^sup>* (begin_with n prog) c" and "finished prog c"
  shows "gets_in prog \<le> puts_in prog \<and> puts_in prog \<le> gets_in prog + capacity n"
proof -
  obtain s todo where c: "c = (s, todo)" by fastforce
  have inv: "inv_program n prog (s, todo)"
    using inv_program_run [OF assms(2,1) inv_program_begin] c by simp
  have none: "undone s todo t = {#}" for t
    using assms(3) c by (simp add: finished_def undone_def)
  have r: "reachable n s" using inv by (simp add: inv_program_def)
  have "sys_put s = sys_got s @ sys_items s" using fifo.holds [OF r] by (simp add: inv_fifo_def)
  moreover have "length (sys_items s) \<le> capacity n" using bounded.holds [OF r] by (simp add: inv_capacity_def)
  ultimately show ?thesis using calls_of_kind [OF inv] none by simp
qed

text \<open>Two producers and a consumer, over a queue for one item.\<close>

definition three_threads :: "nat prog" where
  "three_threads = (\<lambda>_. [])(1 := [Put 7 False, Put 8 False], 2 := [Put 9 False],
     3 := [Get False, Get False, Get False])"

lemma three_threads_sum:
  fixes h :: "nat op list \<Rightarrow> 'b::comm_monoid_add"
  assumes "h [] = 0"
  shows "(\<Sum>t\<in>UNIV. h (three_threads t))
    = h [Put 7 False, Put 8 False] + (h [Put 9 False] + h [Get False, Get False, Get False])"
proof -
  have "(\<Sum>t\<in>UNIV. h (three_threads t)) = (\<Sum>t\<in>{1, 2, 3}. h (three_threads t))"
    by (rule sum.mono_neutral_right) (auto simp: three_threads_def assms)
  then show ?thesis by (simp add: three_threads_def)
qed

lemma three_threads_calls:
  "gets_in three_threads = 3" "puts_in three_threads = 3" "items_in three_threads = {#7, 8, 9#}"
  unfolding gets_in_def puts_in_def items_in_def
  using three_threads_sum [of "\<lambda>ops. length (filter is_get ops)"]
    three_threads_sum [of "\<lambda>ops. length (filter (\<lambda>op. \<not> is_get op) ops)"]
    three_threads_sum [of "\<lambda>ops. mset (concat (map put_items ops))"]
  by simp_all

lemma producers_and_consumers_finish_witness:
  "\<exists>c. client_move\<^sup>*\<^sup>* (begin_with 1 three_threads) c \<and> (\<nexists>c'. client_move c c')
     \<and> mset (sys_got (fst c)) = {#7, 8, 9#}"
proof -
  obtain c where c: "client_move\<^sup>*\<^sup>* (begin_with 1 three_threads) c" "\<nexists>c'. client_move c c'"
    using program_ends by blast
  have "separate three_threads" by (auto simp: separate_def one_kind_def three_threads_def)
  moreover have "capacity 1 = 1" by (simp add: capacity_def int_to_size_t_def)
  ultimately have "\<forall>c'. client_move\<^sup>*\<^sup>* (begin_with 1 three_threads) c' \<longrightarrow> (\<nexists>c''. client_move c' c'')
      \<longrightarrow> finished three_threads c'"
    using producers_and_consumers_finish [of three_threads 1, OF _ _ _ _ rtranclp.rtrancl_refl]
    by (simp add: three_threads_calls)
  with c have "finished three_threads c" by blast
  then have "length (sys_got (fst c)) = 3" and all: "mset (sys_got (fst c)) + mset (sys_items (fst c)) = {#7, 8, 9#}"
    by (simp_all add: finished_def three_threads_calls)
  moreover have "length (sys_got (fst c)) + length (sys_items (fst c)) = 3"
    using arg_cong [OF all, of size] by (simp del: size_mset add: size_mset [symmetric])
  ultimately have "sys_items (fst c) = []" by simp
  with all have "mset (sys_got (fst c)) = {#7, 8, 9#}" by simp
  with c show ?thesis by blast
qed

end
