(* ===== verification/Thread_Attributes.thy ===== *)
theory Thread_Attributes
  imports Thread_Group
begin

text \<open>
  The attribute objects of the threads, over whole programs: every \<open>pthread_attr_t\<close> that is
  initialised belongs to exactly one thread object, so none is destroyed twice, and none is
  lost unless a thread object is.  A group that is started and then destroyed leaves nothing
  behind.
\<close>

section \<open>Attributes and thread objects are equally many\<close>

text \<open>\<open>k\<close> counts the attributes initialised outside the library.\<close>

definition attributes_counted :: "('w \<Rightarrow> int) \<Rightarrow> int \<Rightarrow> ('at, 'w) memory \<Rightarrow> bool" where
  "attributes_counted live k m \<longleftrightarrow>
     (\<forall>p x. mem_threads m p = Some x \<longrightarrow> th_attr_ptr x = Some p)
     \<and> (\<forall>p \<ge> mem_next m. mem_threads m p = None) \<and> finite (dom (mem_threads m))
     \<and> live (mem_os m) = k + int (card (dom (mem_threads m)))"

subsection \<open>The primitives\<close>

lemma keeps_the_thread [keep]: "keeps I (the_thread p)"
  unfolding the_thread_def by (intro keep)

lemma keeps_the_abstract [keep]: "keeps I (the_abstract q)"
  unfolding the_abstract_def by (intro keep)

lemma keeps_print_line [keep]: "keeps (attributes_counted live k) (print_line s)"
  unfolding print_line_def by (rule keeps_modify) (simp add: attributes_counted_def)

lemma keeps_store_abstract [keep]: "keeps (attributes_counted live k) (store_abstract q x)"
  unfolding store_abstract_def by (rule keeps_modify) (simp add: attributes_counted_def)

text \<open>A change of an existing object that leaves its pointer alone.\<close>

lemma keeps_update_thread:
  assumes "\<And>x. th_attr_ptr x = Some p \<Longrightarrow> th_attr_ptr (f x) = Some p"
  shows "keeps (attributes_counted live k) (update_thread p f)"
proof (rule keepsI)
  fix m r m'
  assume I: "attributes_counted live k m" and run: "update_thread p f m = Some (r, m')"
  show "attributes_counted live k m'"
  proof (cases "mem_threads m p")
    case None
    with run I show ?thesis by (simp add: update_thread_def thread_run)
  next
    case (Some x)
    with run have "m' = m\<lparr>mem_threads := (mem_threads m)(p \<mapsto> f x)\<rparr>" by (simp add: thread_run)
    moreover from Some have "dom ((mem_threads m)(p \<mapsto> f x)) = dom (mem_threads m)" by auto
    ultimately show ?thesis using I Some assms by (auto simp: attributes_counted_def)
  qed
qed

context posix_threads
begin

lemma keeps_join_call [keep]:
  "keeps (attributes_counted live k) (sys_block (pthread_join P t u))"
proof (rule keepsI)
  fix m r m'
  assume I: "attributes_counted live k m" and "sys_block (pthread_join P t u) m = Some (r, m')"
  then obtain rc os where "pthread_join P t u (mem_os m) = Some (rc, os)" "m' = m\<lparr>mem_os := os\<rparr>"
    by (auto simp: sys_block_def block_def split: option.splits)
  with I join_live [of t u "mem_os m" rc os] show "attributes_counted live k m'"
    by (simp add: attributes_counted_def)
qed

text \<open>The destructor takes one object and its attributes away, and only the first time.\<close>

lemma keeps_thread_dtor [keep]: "keeps (attributes_counted live k) (thread_dtor P this)"
proof (rule keepsI)
  fix m r m'
  assume I: "attributes_counted live k m" and run: "thread_dtor P this m = Some (r, m')"
  show "attributes_counted live k m'"
  proof (cases "mem_threads m this")
    case None
    with run I show ?thesis by (simp add: thread_dtor_def thread_run)
  next
    case (Some x)
    with I have "th_attr_ptr x = Some this" by (simp add: attributes_counted_def)
    from dtor_outcome [OF Some this] run obtain os' out where
      m': "m' = m\<lparr>mem_os := os', mem_output := out, mem_threads := (mem_threads m)(this := None)\<rparr>"
      and "live os' = live (mem_os m) - 1" by auto
    have "this \<in> dom (mem_threads m)" using Some by auto
    with I have "int (card (dom (mem_threads m) - {this})) = int (card (dom (mem_threads m))) - 1"
      by (simp add: attributes_counted_def card_Diff_singleton of_nat_diff Suc_leI card_gt_0_iff)
        (metis One_nat_def Suc_leI card_gt_0_iff empty_iff of_nat_diff of_nat_1)
    with I \<open>live os' = live (mem_os m) - 1\<close> show ?thesis
      unfolding m' by (simp add: attributes_counted_def)
  qed
qed

text \<open>The constructor adds one object with its attributes, or nothing.\<close>

lemma keeps_new_thread [keep]: "keeps (attributes_counted live k) (new_thread P t runner stack_size)"
proof (rule keepsI)
  fix m r m'
  assume I: "attributes_counted live k m" and run: "new_thread P t runner stack_size m = Some (r, m')"
  let ?p = "mem_next m"
  define m0 where "m0 = m\<lparr>mem_next := Suc ?p\<rparr>"
  have free: "mem_threads m0 ?p = None" using I by (simp add: m0_def attributes_counted_def)
  obtain s m1 where c: "thread_ctor P t ?p runner stack_size m0 = Some (s, m1)"
    and out: "s = Inr () \<and> live (mem_os m1) = live (mem_os m0) + 1
         \<and> (\<exists>x. mem_threads m1 = (mem_threads m0)(?p \<mapsto> x) \<and> thread_ok ?p x \<and> th_thread x \<noteq> 0)
       \<or> (\<exists>e. s = Inl (Thrown e)) \<and> live (mem_os m1) = live (mem_os m0)
         \<and> mem_threads m1 = mem_threads m0"
    and rest: "mem_next m1 = mem_next m0"
    using ctor_outcome [OF free, of t runner stack_size] by (elim exE conjE) (rule that)
  have "new_thread P t runner stack_size m = bind (thread_ctor P t ?p runner stack_size) (\<lambda>_. ret ?p) m0"
    by (simp add: new_thread_def new_object_def m0_def)
  with c out run have m': "m' = m1" by (auto simp: bind_def)
  from out show "attributes_counted live k m'"
    using I rest free unfolding m'
    by (elim disjE conjE exE) (auto simp: attributes_counted_def m0_def thread_ok_def card_insert_if)
qed

subsection \<open>The operations\<close>

lemma keeps_thread_join [keep]: "keeps (attributes_counted live k) (thread_join P t this)"
  unfolding thread_join_def this_thread_get_id_def by (intro keep keeps_update_thread) simp_all

lemma keeps_thread_swap [keep]: "keeps (attributes_counted live k) (thread_swap this other)"
  unfolding thread_swap_def swap_member_def by (intro keep keeps_update_thread) simp_all

lemma keeps_thread_move_assign [keep]: "keeps (attributes_counted live k) (thread_move_assign this other)"
  unfolding thread_move_assign_def by (intro keep)

lemma keeps_abstract_thread_ctor [keep]:
  "keeps (attributes_counted live k) (abstract_thread_ctor this stack_size)"
  unfolding abstract_thread_ctor_def by (intro keep)

lemma keeps_abstract_thread_dtor [keep]: "keeps (attributes_counted live k) (abstract_thread_dtor P this)"
  unfolding abstract_thread_dtor_def by (intro keep)

lemma keeps_abstract_thread_start [keep]: "keeps (attributes_counted live k) (abstract_thread_start P t this)"
  unfolding abstract_thread_start_def by (intro keep)

lemma keeps_abstract_thread_join [keep]: "keeps (attributes_counted live k) (abstract_thread_join P t this)"
  unfolding abstract_thread_join_def by (intro keep)

lemma keeps_abstract_thread_joinable [keep]:
  "keeps (attributes_counted live k) (abstract_thread_joinable this)"
  unfolding abstract_thread_joinable_def thread_joinable_def by (intro keep)

lemma keeps_thread_group_start [keep]: "keeps (attributes_counted live k) (thread_group_start P t g)"
  unfolding thread_group_start_def by (intro keep)

lemma keeps_thread_group_join [keep]: "keeps (attributes_counted live k) (thread_group_join P t g)"
  unfolding thread_group_join_def by (intro keep)

lemma keeps_thread_group_dtor [keep]: "keeps (attributes_counted live k) (thread_group_dtor P t g)"
  unfolding thread_group_dtor_def join_quietly_def by (intro keep)

text \<open>The default constructor at a fresh address, and what a constructor that delegates to it does then.\<close>

lemma fresh_default_ctor:
  assumes I: "attributes_counted live k m"
    and run: "thread_default_ctor P (mem_next m) (m\<lparr>mem_next := Suc (mem_next m)\<rparr>) = Some (r, m')"
  shows "attributes_counted live k m'"
proof -
  let ?p = "mem_next m" and ?m = "m\<lparr>mem_next := Suc (mem_next m)\<rparr>"
  have free: "mem_threads m ?p = None" using I by (simp add: attributes_counted_def)
  from default_ctor_outcome [of ?p ?m] run obtain os' a where m': "m' = ?m\<lparr>mem_os := os',
       mem_threads := (if r = Inr () then (mem_threads m)(?p \<mapsto> \<lparr>th_thread = 0, th_attr = a,
         th_attr_ptr = Some ?p, th_status = not_a_thread\<rparr>) else mem_threads m)\<rparr>"
    and "r = Inr () \<and> live os' = live (mem_os m) + 1 \<or> (\<exists>e. r = Inl (Thrown e)) \<and> live os' = live (mem_os m)"
    by auto
  then show ?thesis
    using I free by (elim disjE conjE exE) (auto simp: attributes_counted_def card_insert_if)
qed

lemma keeps_new_object:
  assumes "\<And>p. keeps (attributes_counted live k) (rest p)"
  shows "keeps (attributes_counted live k) (new_object (\<lambda>p. seq (thread_default_ctor P p) (rest p)))"
proof (rule keepsI)
  fix m r m'
  assume I: "attributes_counted live k m"
    and run: "new_object (\<lambda>p. seq (thread_default_ctor P p) (rest p)) m = Some (r, m')"
  let ?p = "mem_next m"
  from run have "bind (thread_default_ctor P ?p) (\<lambda>_. seq (rest ?p) (ret ?p)) (m\<lparr>mem_next := Suc ?p\<rparr>) = Some (r, m')"
    by (simp add: new_object_def bind_assoc)
  then show "attributes_counted live k m'"
  proof (cases rule: bind_Some_E)
    case (failed f)
    from I failed(1) show ?thesis by (rule fresh_default_ctor)
  next
    case (went_on u m1)
    have "keeps (attributes_counted live k) (seq (rest ?p) (ret ?p))" by (intro keep assms)
    from keepsD [OF this went_on(2) fresh_default_ctor [OF I went_on(1)]] show ?thesis .
  qed
qed

lemma keeps_new_default [keep]: "keeps (attributes_counted live k) (new_object (thread_default_ctor P))"
proof -
  have "keeps (attributes_counted live k) (new_object (\<lambda>p. seq (thread_default_ctor P p) (ret ())))"
    by (rule keeps_new_object) (intro keep)
  moreover have "seq m (ret ()) = m" for m :: "('a, 'b, unit) thread_comp"
    using bind_ret_right [of m] by simp
  ultimately show ?thesis by simp
qed

lemma keeps_new_moved [keep]: "keeps (attributes_counted live k) (new_object (\<lambda>p. thread_move_ctor P p other))"
  unfolding thread_move_ctor_def by (rule keeps_new_object) (intro keep)

end

section \<open>Programs\<close>

text \<open>
  The calls a program makes on threads, \<open>abstract_thread\<close> objects and groups, in any order, from
  any thread: every constructor, assignment and destructor, \<open>start\<close> and \<open>join\<close>.
\<close>

datatype thread_action =
    Abstract_call abstract_call
  | Thread_default
  | Thread_new addr size_t
  | Thread_move addr
  | Thread_join addr
  | Thread_assign addr addr
  | Thread_delete addr
  | Group_start thread_group
  | Group_join thread_group
  | Group_delete thread_group

fun act ::
  "('at, 'w, 'z) thread_api_scheme \<Rightarrow> pthread_t \<Rightarrow> thread_action \<Rightarrow> ('at, 'w, unit) thread_comp" where
  "act P t (Abstract_call c) = run_call P t c"
| "act P t Thread_default = bind (new_object (thread_default_ctor P)) (\<lambda>_. ret ())"
| "act P t (Thread_new runner stack_size) = bind (new_thread P t runner stack_size) (\<lambda>_. ret ())"
| "act P t (Thread_move p) = bind (new_object (\<lambda>this. thread_move_ctor P this p)) (\<lambda>_. ret ())"
| "act P t (Thread_join p) = thread_join P t p"
| "act P t (Thread_assign p p') = bind (thread_move_assign p p') (\<lambda>_. ret ())"
| "act P t (Thread_delete p) = thread_dtor P p"
| "act P t (Group_start g) = thread_group_start P t g"
| "act P t (Group_join g) = thread_group_join P t g"
| "act P t (Group_delete g) = thread_group_dtor P t g"

text \<open>A program goes on after an exception: somebody catches it.\<close>

inductive acts :: "('at, 'w, 'z) thread_api_scheme \<Rightarrow> ('at, 'w) memory \<Rightarrow> ('at, 'w) memory \<Rightarrow> bool"
  for P m where
  acts_nothing: "acts P m m"
| acts_one: "acts P m m1 \<Longrightarrow> act P t c m1 = Some (r, m2) \<Longrightarrow> acts P m m2"

context posix_threads
begin

lemma keeps_act [keep]: "keeps (attributes_counted live k) (act P t c)"
proof (cases c)
  case (Abstract_call d)
  then show ?thesis by (cases d) (auto intro: keep)
qed (auto intro!: keep)

lemma acts_attributes: "acts P m m' \<Longrightarrow> attributes_counted live k m \<Longrightarrow> attributes_counted live k m'"
  by (induction rule: acts.induct) (auto dest: keepsD [OF keeps_act])

end

section \<open>A group that is started and destroyed\<close>

text \<open>What starting some objects of \<open>Q\<close>, none of which owned a thread, has done to the memory.\<close>

definition started :: "addr set \<Rightarrow> ('at, 'w) memory \<Rightarrow> ('at, 'w) memory \<Rightarrow> bool" where
  "started Q m m' \<longleftrightarrow> memory_ok m' \<and> dom (mem_abstract m') = dom (mem_abstract m)
     \<and> mem_next m \<le> mem_next m' \<and> (\<forall>p < mem_next m. mem_threads m' p = mem_threads m p)
     \<and> (\<forall>p \<ge> mem_next m. mem_threads m' p \<noteq> None \<longrightarrow> (\<exists>q\<in>Q. owns m' q p))
     \<and> (\<forall>q\<in>Q. \<forall>p. owns m' q p \<longrightarrow> mem_next m \<le> p)"

lemma started_nothing:
  assumes "memory_ok m" and "\<And>q p. q \<in> Q \<Longrightarrow> \<not> owns m q p"
  shows "started Q m m"
  using assms by (auto simp: started_def memory_ok_def)

context posix_threads
begin

text \<open>One more object is started, or the start fails.\<close>

lemma start_started:
  assumes s: "started Q m0 m" and "q \<in> Q" and q: "mem_abstract m q = Some a"
    and new: "\<And>p. \<not> owns m q p" and run: "abstract_thread_start P t q m = Some (r, m')"
  shows "started Q m0 m' \<and> (\<forall>u p. u \<noteq> q \<longrightarrow> owns m' u p = owns m u p)"
proof -
  have ok: "memory_ok m" using s by (simp add: started_def)
  from start_outcome [OF ok q, of t] run have ok': "memory_ok m'"
    and nxt: "mem_next m' = Suc (mem_next m)"
    and old: "\<forall>p < mem_next m. mem_threads m' p = mem_threads m p"
    and out: "mem_abstract m' = (mem_abstract m)(q \<mapsto> a\<lparr>ab_thread := Some (mem_next m)\<rparr>)
       \<or> mem_abstract m' = mem_abstract m \<and> mem_threads m' = mem_threads m" by auto
  from out show ?thesis
  proof
    assume abs: "mem_abstract m' = (mem_abstract m)(q \<mapsto> a\<lparr>ab_thread := Some (mem_next m)\<rparr>)"
    have own: "owns m' u p \<longleftrightarrow> (if u = q then p = mem_next m else owns m u p)" for u p
      using abs by (auto simp: owns_def)
    have beyond: "mem_threads m' p = None" if "Suc (mem_next m) \<le> p" for p
      using ok' nxt that by (auto simp: memory_ok_def)
    have "\<exists>u\<in>Q. owns m' u p" if "mem_next m0 \<le> p" "mem_threads m' p \<noteq> None" for p
    proof (cases "p < mem_next m")
      case True
      with that old have "mem_threads m p \<noteq> None" by auto
      with s that(1) obtain u where u: "u \<in> Q" "owns m u p" unfolding started_def by blast
      with new have "u \<noteq> q" by auto
      with u own show ?thesis by auto
    next
      case False
      with that(2) beyond [of p] have "p = mem_next m" by (cases "p = mem_next m") auto
      with own assms(2) show ?thesis by auto
    qed
    moreover have "\<forall>p < mem_next m0. mem_threads m' p = mem_threads m0 p"
      using s old by (auto simp: started_def)
    moreover have "dom (mem_abstract m') = dom (mem_abstract m0)" using s abs q by (auto simp: started_def)
    moreover have "\<forall>u\<in>Q. \<forall>p. owns m' u p \<longrightarrow> mem_next m0 \<le> p" using s own by (auto simp: started_def)
    moreover have "mem_next m0 \<le> mem_next m'" using s nxt by (simp add: started_def)
    ultimately have "started Q m0 m'" using ok' unfolding started_def by blast
    with own show ?thesis by simp
  next
    assume same: "mem_abstract m' = mem_abstract m \<and> mem_threads m' = mem_threads m"
    then have "owns m' = owns m" by (simp add: owns_def fun_eq_iff)
    moreover from this s same ok' nxt have "started Q m0 m'" unfolding started_def by (simp add: le_SucI)
    ultimately show ?thesis by simp
  qed
qed

lemma group_start_started:
  assumes "started Q m0 m" and "set qs \<subseteq> Q" and "distinct qs" and "Q \<subseteq> dom (mem_abstract m0)"
    and "\<And>q p. q \<in> set qs \<Longrightarrow> \<not> owns m q p"
    and "for_each (abstract_thread_start P t) qs m = Some (r, m')"
  shows "started Q m0 m'"
  using assms(1-3,5-)
proof (induction qs arbitrary: m)
  case (Cons q qs)
  from Cons.prems(1) have "dom (mem_abstract m) = dom (mem_abstract m0)" by (simp add: started_def)
  with Cons.prems(2) assms(4) have "q \<in> dom (mem_abstract m)" by auto
  then obtain a where q: "mem_abstract m q = Some a" by auto
  from Cons.prems(5) have "bind (abstract_thread_start P t q) (\<lambda>_. for_each (abstract_thread_start P t) qs) m
      = Some (r, m')" by simp
  then show ?case
  proof (cases rule: bind_Some_E)
    case (failed f)
    from start_started [OF Cons.prems(1) _ q _ failed(1)] Cons.prems(2,4) show ?thesis by simp
  next
    case (went_on u m1)
    have s: "started Q m0 m1" and own: "\<forall>u p. u \<noteq> q \<longrightarrow> owns m1 u p = owns m u p"
      using start_started [OF Cons.prems(1) _ q _ went_on(1)] Cons.prems(2,4) by auto
    have "\<not> owns m1 u p" if "u \<in> set qs" for u p
      using that own Cons.prems(3,4) by (metis distinct.simps(2) list.set_intros(2))
    with Cons.IH [OF s _ _ _ went_on(2)] Cons.prems(2,3) show ?thesis by auto
  qed
qed auto

end

text \<open>Deleting the objects afterwards takes every new thread object away.\<close>

lemma started_deleted:
  assumes "memory_ok m" and s: "started Q m m1" and d: "deleted Q m1 m2"
  shows "mem_threads m2 = mem_threads m"
proof
  fix p
  show "mem_threads m2 p = mem_threads m p"
  proof (cases "p < mem_next m")
    case True
    with s have "\<not> (\<exists>q\<in>Q. owns m1 q p)" unfolding started_def by (meson leD)
    with d True s show ?thesis by (auto simp: deleted_def started_def)
  next
    case False
    with assms(1) have "mem_threads m p = None" by (simp add: memory_ok_def)
    moreover from s False have "mem_threads m1 p \<noteq> None \<Longrightarrow> \<exists>q\<in>Q. owns m1 q p"
      by (simp add: started_def)
    ultimately show ?thesis using d by (cases "mem_threads m1 p") (auto simp: deleted_def)
  qed
qed

section \<open>Properties\<close>

text \<open>C25: whatever threads, \<open>abstract_thread\<close> objects and groups a program constructs, moves, assigns,
  starts, joins and destroys, in whatever order, from whatever threads, and whichever of these calls
  throw: the attributes initialised and not yet destroyed are as many as there are thread objects,
  each of which points to its own.  None of the three constructors of a thread leaks them, no
  destructor frees them twice, and neither do the two moves, the joins and the groups.\<close>

theorem attributes_never_leak:
  assumes "posix_threads P live" and "attributes_counted live k m" and "acts P m m'"
  shows "attributes_counted live k m'"
  using posix_threads.acts_attributes [OF assms(1,3,2)] .

lemma group_memory_counted: "attributes_counted ro_live 0 group_memory"
proof -
  have "dom (mem_threads group_memory) = {1, 2}"
    by (auto simp: group_memory_def ref_memory_def)
  then show ?thesis
    by (auto simp: attributes_counted_def group_memory_def ref_memory_def split: if_splits)
qed

text \<open>A thread is moved into a new object, a default one is made, and the owner of another is deleted.\<close>

lemma attributes_never_leak_witness:
  "\<exists>m1 m2 m3. act ref_threads 9 (Thread_move 2) group_memory = Some (Inr (), m1)
     \<and> act ref_threads 9 Thread_default m1 = Some (Inr (), m2)
     \<and> act ref_threads 9 (Abstract_call (Call_delete 10)) m2 = Some (Inr (), m3)
     \<and> ro_live (mem_os m3) = int (card (dom (mem_threads m3)))"
proof -
  let ?act = "act ref_threads 9"
  have "map_option fst (seq (?act (Thread_move 2)) (seq (?act Thread_default)
      (?act (Abstract_call (Call_delete 10)))) group_memory) = Some (Inr ())" by code_simp
  then obtain m3 where "seq (?act (Thread_move 2)) (seq (?act Thread_default)
      (?act (Abstract_call (Call_delete 10)))) group_memory = Some (Inr (), m3)" by auto
  then obtain m1 m2 where run: "?act (Thread_move 2) group_memory = Some (Inr (), m1)"
    "?act Thread_default m1 = Some (Inr (), m2)" "?act (Abstract_call (Call_delete 10)) m2 = Some (Inr (), m3)"
    unfolding bind_returns_iff by auto
  then have "acts ref_threads group_memory m3" by (meson acts_nothing acts_one)
  with attributes_never_leak [OF ref_posix_threads group_memory_counted this] run show ?thesis
    by (auto simp: attributes_counted_def)
qed

text \<open>C26: a group whose objects own no thread yet, started, wherever the start fails, and then
  destroyed (by a destructor that does not join, or where \<open>pthread_join\<close> always comes back), comes
  back to the beginning: no thread object is left that was not there before, none that was there is
  gone, and no attributes are leaked.\<close>

theorem thread_group_scope_is_clean:
  assumes P: "posix_threads P live" and ok: "memory_ok m" and cnt: "attributes_counted live k m"
    and dom: "set (tg_threads g) \<subseteq> dom (mem_abstract m)" and dist: "distinct (tg_threads g)"
    and fresh: "\<And>q p. q \<in> set (tg_threads g) \<Longrightarrow> \<not> owns m q p"
    and returns: "\<not> destructor_joins_first g \<or> joins_return P"
    and start: "thread_group_start P t g m = Some (r, m1)"
  shows "\<exists>m2. thread_group_dtor P t g m1 = Some (Inr (), m2) \<and> mem_threads m2 = mem_threads m
    \<and> live (mem_os m2) = live (mem_os m)"
proof -
  let ?Q = "set (tg_threads g)"
  have "started ?Q m m1"
    using posix_threads.group_start_started [OF P started_nothing [OF ok fresh] order_refl dist dom fresh
        start [unfolded thread_group_start_def]] .
  moreover from this have ok1: "memory_ok m1" and dom1: "?Q \<subseteq> dom (mem_abstract m1)"
    using dom by (simp_all add: started_def)
  moreover obtain r2 m2 where run2: "thread_group_dtor P t g m1 = Some (r2, m2)"
    using thread_group_dtor_outcome(2) [OF ok1 dom1 dist, of P t] returns
    by (auto simp: destructor_joins_first_def)
  moreover from thread_group_dtor_outcome(1) [OF ok1 dom1 dist run2]
  have run: "thread_group_dtor P t g m1 = Some (Inr (), m2)" and del: "deleted ?Q m1 m2"
    using run2 by simp_all
  ultimately have same: "mem_threads m2 = mem_threads m" using started_deleted [OF ok] by blast
  have "attributes_counted live k m2"
    using keepsD [OF posix_threads.keeps_thread_group_dtor [OF P] run
        keepsD [OF posix_threads.keeps_thread_group_start [OF P] start cnt]] .
  with cnt same run show ?thesis by (simp add: attributes_counted_def)
qed

lemma thread_group_scope_is_clean_witness:
  "\<exists>r m1 m2. thread_group_start ref_threads 9 (thread_group_add 11 (thread_group_ctor True)) group_memory
       = Some (r, m1)
     \<and> thread_group_dtor ref_threads 9 (thread_group_add 11 (thread_group_ctor True)) m1 = Some (Inr (), m2)
     \<and> ro_live (mem_os m2) = 2"
proof -
  let ?g = "thread_group_add 11 (thread_group_ctor True)"
  have g: "tg_threads ?g = [11]" by (simp add: thread_group_add_def thread_group_ctor_def)
  have dom: "set (tg_threads ?g) \<subseteq> dom (mem_abstract group_memory)" and dist: "distinct (tg_threads ?g)"
    unfolding g by (simp_all add: group_memory_def)
  have fresh: "\<not> owns group_memory q p" if "q \<in> set (tg_threads ?g)" for q p
    using that unfolding g by (simp add: owns_def group_memory_def)
  have returns: "\<not> destructor_joins_first ?g \<or> joins_return ref_threads"
    by (simp add: joins_return_def ref_threads_def ref_join_def)
  obtain r m1 where start: "thread_group_start ref_threads 9 ?g group_memory = Some (r, m1)"
    using ref_threads.group_start_outcome [OF group_memory_ok dom dist, of 9]
    unfolding thread_group_start_def by blast
  from thread_group_scope_is_clean [OF ref_posix_threads group_memory_ok group_memory_counted dom dist
      fresh returns start] start
  show ?thesis by (auto simp: group_memory_def ref_memory_def)
qed

end
