(* ===== verification/Thread_Execution.thy ===== *)
theory Thread_Execution
  imports Thread_Attributes
begin

text \<open>
  What a group of threads is for: once it has been started and joined, the \<open>run\<close> method of
  every member has been executed to its end.  What the system runs in which thread is stated
  as a locale on top of the laws of the threads.
\<close>

section \<open>Execution\<close>

text \<open>
  \<open>executes w u\<close> is the object whose \<open>run\<close> the thread \<open>u\<close> was created to execute, while nobody
  has joined it; \<open>completed\<close> are the objects whose \<open>run\<close> has come to its end at least once.
  Other threads may do what they like but do not join these threads.
\<close>

definition persist ::
  "('w \<Rightarrow> pthread_t \<Rightarrow> addr option) \<Rightarrow> ('w \<Rightarrow> addr set) \<Rightarrow> 'w \<Rightarrow> 'w \<Rightarrow> bool" where
  "persist executes completed w w' \<longleftrightarrow>
     (\<forall>u q. executes w u = Some q \<longrightarrow> executes w' u = Some q) \<and> completed w \<subseteq> completed w'"

locale posix_execution = posix_threads P live
  for P :: "('at, 'w, 'z) thread_api_scheme" and live :: "'w \<Rightarrow> int" +
  fixes executes :: "'w \<Rightarrow> pthread_t \<Rightarrow> addr option" and completed :: "'w \<Rightarrow> addr set"
  assumes init_persists: "persist executes completed w (snd (pthread_attr_init P w))"
    and destroy_persists: "persist executes completed w (snd (pthread_attr_destroy P a w))"
    and setdetachstate_persists:
      "persist executes completed w (snd (pthread_attr_setdetachstate P st a w))"
    and setstacksize_persists: "persist executes completed w (snd (pthread_attr_setstacksize P sz a w))"
    and create_persists: "persist executes completed w (snd (pthread_create P t a runner w))"
    and create_executes:
      "pthread_create P t a runner w = ((0, tid), w') \<Longrightarrow> executes w' tid = Some runner"
    and join_completes:
      "executes w u = Some q \<Longrightarrow> pthread_join P t u w = Some (rc, w') \<Longrightarrow>
         rc \<noteq> ESRCH \<and> (rc = 0 \<longrightarrow> q \<in> completed w')"
    and join_others:
      "pthread_join P t u w = Some (rc, w') \<Longrightarrow> v \<noteq> u \<Longrightarrow> executes w v = Some q \<Longrightarrow>
         executes w' v = Some q"
    and join_keeps_completed: "pthread_join P t u w = Some (rc, w') \<Longrightarrow> completed w \<subseteq> completed w'"
    and failed_join:
      "pthread_join P t u w = Some (rc, w') \<Longrightarrow> rc \<noteq> 0 \<Longrightarrow> persist executes completed w w'"

lemma persist_refl: "persist executes completed w w"
  by (simp add: persist_def)

lemma persist_trans:
  "persist executes completed w1 w2 \<Longrightarrow> persist executes completed w2 w3 \<Longrightarrow>
     persist executes completed w1 w3"
  by (auto simp: persist_def)

text \<open>Each member's thread executes the member.\<close>

definition runs_members :: "('w \<Rightarrow> pthread_t \<Rightarrow> addr option) \<Rightarrow> ('at, 'w) memory \<Rightarrow> bool" where
  "runs_members executes m \<longleftrightarrow> (\<forall>q p x. owns m q p \<longrightarrow> mem_threads m p = Some x \<longrightarrow> th_thread x \<noteq> 0 \<longrightarrow>
     executes (mem_os m) (th_thread x) = Some q)"

section \<open>Starting\<close>

lemma keeps_sys:
  assumes "\<And>w. I w \<Longrightarrow> I (snd (f w))"
  shows "keeps (\<lambda>m. I (mem_os m)) (sys f)"
proof (rule keepsI)
  fix m r m'
  assume "I (mem_os m)" and "sys f m = Some (r, m')"
  moreover from this have "mem_os m' = snd (f (mem_os m))"
    by (auto simp: sys_def call_def split: prod.splits)
  ultimately show "I (mem_os m')" using assms by simp
qed

lemma keeps_os_store [keep]:
  "keeps (\<lambda>m. I (mem_os m)) (store_thread p x)" "keeps (\<lambda>m. I (mem_os m)) (store_abstract q y)"
  "keeps (\<lambda>m. I (mem_os m)) (update_thread p f)" "keeps (\<lambda>m. I (mem_os m)) (print_line s)"
  unfolding store_thread_def store_abstract_def update_thread_def print_line_def
  by (intro keep keeps_modify; simp)+

lemma keeps_attr_call:
  "(\<And>a w. I w \<Longrightarrow> I (snd (f a w))) \<Longrightarrow> keeps (\<lambda>m. I (mem_os m)) (attr_call f this)"
  unfolding attr_call_def by (intro keep keeps_sys) (auto split: prod.splits intro: keep)

lemma the_abstract_reads: "the_abstract q m = Some (Inr a, m') \<Longrightarrow> m' = m"
  by (auto simp: the_abstract_def gets_def bind_def split: option.splits)

text \<open>
  A constructor that returns has created a thread, in a world that the calls before it have led to,
  and the object holds its identifier.
\<close>

lemma init_creates:
  assumes run: "thread_init P t this runner stack_size m = Some (Inr rc, m')" and I: "I (mem_os m)"
    and keeps: "\<And>a w. I w \<Longrightarrow> I (snd (pthread_attr_setdetachstate P PTHREAD_CREATE_JOINABLE a w))"
      "\<And>a w. I w \<Longrightarrow> I (snd (pthread_attr_setstacksize P stack_size a w))"
  shows "\<exists>w a tid x. I w \<and> pthread_create P t a runner w = ((0, tid), mem_os m')
    \<and> mem_threads m' this = Some x \<and> th_thread x = tid"
proof -
  let ?create = "bind (the_thread this) (\<lambda>x. case th_attr_ptr x of
      None \<Rightarrow> undefined_behaviour
    | Some p \<Rightarrow> bind (the_thread p) (\<lambda>y.
        bind (sys (pthread_create P t (th_attr y) runner)) (\<lambda>(rc, tid).
          seq (update_thread this (\<lambda>z. z\<lparr>th_thread := tid\<rparr>))
            (if rc \<noteq> 0 then throw (thread_exception (strerror P) ''pthread_create failed.'' rc)
             else seq (update_thread this (\<lambda>z. z\<lparr>th_status := a_thread\<rparr>)) (ret rc)))))"
  let ?size = "if 0 < stack_size then
      if pthread_stack_min P < stack_size then
        bind (attr_call (pthread_attr_setstacksize P stack_size) this) (\<lambda>rc.
          if 0 < stack_size \<and> rc \<noteq> 0 then
            throw (thread_exception (strerror P)
              ''bad stacksize, check size passed to thread::thread, thread not started.'' rc)
          else ret ())
      else throw (thread_exception (strerror P)
          (''minimum stack size is '' @ to_string (unat (pthread_stack_min P)) @
           '' bytes, you passed a size of '' @ to_string (unat stack_size)) thread_exception_default_error)
    else ret ()"
  obtain ma m1 where first: "attr_call (pthread_attr_setdetachstate P PTHREAD_CREATE_JOINABLE) this m
      = Some (Inr 0, ma)" and size: "?size ma = Some (Inr (), m1)" and run: "?create m1 = Some (Inr rc, m')"
    using run unfolding thread_init_def by (auto simp: bind_returns_iff split: if_splits)
  have "keeps (\<lambda>m. I (mem_os m)) (attr_call (pthread_attr_setdetachstate P PTHREAD_CREATE_JOINABLE) this)"
    by (intro keeps_attr_call keeps(1))
  from keepsD [OF this first] I have "I (mem_os ma)" by simp
  have sized: "keeps (\<lambda>m. I (mem_os m)) ?size" by (intro keep keeps_attr_call keeps(2))
  from keepsD [OF sized size] \<open>I (mem_os ma)\<close> have I1: "I (mem_os m1)" by simp
  from run obtain x where x: "mem_threads m1 this = Some x"
    by (cases "mem_threads m1 this") (auto simp: thread_run)
  with run obtain p where p: "th_attr_ptr x = Some p" by (cases "th_attr_ptr x") (auto simp: thread_run)
  with run x obtain y where y: "mem_threads m1 p = Some y"
    by (cases "mem_threads m1 p") (auto simp: thread_run)
  obtain rc' tid os where c: "pthread_create P t (th_attr y) runner (mem_os m1) = ((rc', tid), os)"
    by (metis surj_pair)
  with run x p y have "rc' = 0" and m': "m' = m1\<lparr>mem_os := os, mem_threads := (mem_threads m1)
      (this \<mapsto> x\<lparr>th_thread := tid, th_status := a_thread\<rparr>)\<rparr>"
    by (auto simp: thread_run split: if_splits)
  with c I1 show ?thesis by (intro exI [of _ "mem_os m1"] exI [of _ "th_attr y"]) simp
qed

lemma start_creates:
  assumes q: "mem_abstract m q = Some a" and I: "I (mem_os m)"
    and run: "abstract_thread_start P t q m = Some (Inr (), m')"
    and keeps: "\<And>w. I w \<Longrightarrow> I (snd (pthread_attr_init P w))"
      "\<And>a w. I w \<Longrightarrow> I (snd (pthread_attr_setdetachstate P PTHREAD_CREATE_JOINABLE a w))"
      "\<And>a w n. I w \<Longrightarrow> I (snd (pthread_attr_setstacksize P n a w))"
  shows "\<exists>w at tid p x. I w \<and> pthread_create P t at q w = ((0, tid), mem_os m')
    \<and> owns m' q p \<and> mem_threads m' p = Some x \<and> th_thread x = tid"
proof -
  let ?store = "\<lambda>p. bind (the_abstract q) (\<lambda>a'. store_abstract q (Some (a'\<lparr>ab_thread := Some p\<rparr>)))"
  let ?m0 = "m\<lparr>mem_next := Suc (mem_next m)\<rparr>"
  have "bind (new_thread P t q (ab_stack_size a)) ?store m = Some (Inr (), m')"
    using run q by (simp add: abstract_thread_start_def thread_run)
  then obtain p m1 where new: "new_thread P t q (ab_stack_size a) m = Some (Inr p, m1)"
    and rest: "?store p m1 = Some (Inr (), m')" by (rule bind_Some_Inr_E)
  from new have "seq (thread_ctor P t (mem_next m) q (ab_stack_size a)) (ret (mem_next m)) ?m0 = Some (Inr p, m1)"
    by (simp add: new_thread_def new_object_def)
  then have "p = mem_next m" and "thread_ctor P t p q (ab_stack_size a) ?m0 = Some (Inr (), m1)"
    by (auto simp: bind_returns_iff)
  then obtain m2 rc where d: "thread_default_ctor P p ?m0 = Some (Inr (), m2)"
    and i: "thread_init P t p q (ab_stack_size a) m2 = Some (Inr rc, m1)"
    unfolding thread_ctor_def by (auto simp: bind_returns_iff on_throw_returns_iff)
  have "keeps (\<lambda>m. I (mem_os m)) (thread_default_ctor P p)"
    unfolding thread_default_ctor_def
    by (intro keep keeps_sys keeps(1)) (auto split: prod.splits intro: keep)
  from keepsD [OF this d] I have "I (mem_os m2)" by simp
  from init_creates [where I = I, OF i this keeps(2,3)] obtain w at x where c: "I w"
    "pthread_create P t at q w = ((0, th_thread x), mem_os m1)" "mem_threads m1 p = Some x" by blast
  from rest obtain a' m3 where "the_abstract q m1 = Some (Inr a', m3)"
    and "store_abstract q (Some (a'\<lparr>ab_thread := Some p\<rparr>)) m3 = Some (Inr (), m')"
    by (rule bind_Some_Inr_E)
  with the_abstract_reads have "store_abstract q (Some (a'\<lparr>ab_thread := Some p\<rparr>)) m1 = Some (Inr (), m')"
    by metis
  then have "m' = m1\<lparr>mem_abstract := (mem_abstract m1)(q \<mapsto> a'\<lparr>ab_thread := Some p\<rparr>)\<rparr>"
    by (simp add: store_abstract_run)
  with c show ?thesis
    by (intro exI [of _ w] exI [of _ at] exI [of _ "th_thread x"] exI [of _ p] exI [of _ x]) (simp add: owns_def)
qed

context posix_execution
begin

abbreviation since :: "'w \<Rightarrow> ('at, 'w) memory \<Rightarrow> bool" where
  "since w \<equiv> \<lambda>m. persist executes completed w (mem_os m)"

lemmas persists_on = persist_trans [OF _ init_persists] persist_trans [OF _ destroy_persists]
  persist_trans [OF _ setdetachstate_persists] persist_trans [OF _ setstacksize_persists]
  persist_trans [OF _ create_persists]

lemma since_default_ctor: "keeps (since w) (thread_default_ctor P this)"
  unfolding thread_default_ctor_def
  by (intro keep keeps_sys persists_on) (auto split: prod.splits intro: keep)

lemma since_dtor: "keeps (since w) (thread_dtor P this)"
  unfolding thread_dtor_def
  by (intro keep keeps_sys persists_on) (auto split: prod.splits intro!: keep)

lemma since_init: "keeps (since w) (thread_init P t this runner stack_size)"
  unfolding thread_init_def
  by (intro keep keeps_sys keeps_attr_call persists_on) (auto split: prod.splits intro!: keep)

lemma since_new_thread: "keeps (since w) (new_thread P t runner stack_size)"
  unfolding new_thread_def new_object_def thread_ctor_def
  by (intro keep since_default_ctor since_init since_dtor keeps_modify) simp

lemma since_start: "keeps (since w) (abstract_thread_start P t this)"
  unfolding abstract_thread_start_def by (intro keep since_new_thread)

text \<open>\<open>start\<close> keeps the members' threads, and gives its object one that executes it.\<close>

lemma start_executes:
  assumes ok: "memory_ok m" and runs: "runs_members executes m" and q: "mem_abstract m q = Some a"
    and run: "abstract_thread_start P t q m = Some (r, m')"
  shows "runs_members executes m' \<and> completed (mem_os m) \<subseteq> completed (mem_os m')"
proof -
  have since: "persist executes completed (mem_os m) (mem_os m')"
    using keepsD [where I = "since (mem_os m)", OF since_start run persist_refl] .
  then have "completed (mem_os m) \<subseteq> completed (mem_os m')" by (simp add: persist_def)
  have kept: "executes (mem_os m') (th_thread x) = Some u"
    if "owns m u p" "mem_threads m p = Some x" "th_thread x \<noteq> 0" for u p x
    using runs since that by (auto simp: runs_members_def persist_def)
  from start_outcome [OF ok q, of t] run have old: "\<forall>p < mem_next m. mem_threads m' p = mem_threads m p"
    and out: "r = Inr () \<and> mem_abstract m' = (mem_abstract m)(q \<mapsto> a\<lparr>ab_thread := Some (mem_next m)\<rparr>)
       \<or> mem_abstract m' = mem_abstract m \<and> mem_threads m' = mem_threads m" by auto
  from out have "runs_members executes m'"
  proof
    assume "mem_abstract m' = mem_abstract m \<and> mem_threads m' = mem_threads m"
    moreover from this have "owns m' = owns m" by (simp add: owns_def fun_eq_iff)
    ultimately show ?thesis using kept by (simp add: runs_members_def)
  next
    assume works: "r = Inr () \<and> mem_abstract m' = (mem_abstract m)(q \<mapsto> a\<lparr>ab_thread := Some (mem_next m)\<rparr>)"
    have own: "owns m' u p \<longleftrightarrow> (if u = q then p = mem_next m else owns m u p)" for u p
      using works by (auto simp: owns_def)
    from start_creates [where I = "\<lambda>_. True", OF q _ run [unfolded works [THEN conjunct1]]]
    obtain x where x: "mem_threads m' (mem_next m) = Some x" "executes (mem_os m') (th_thread x) = Some q"
      using own create_executes by auto
    have "p < mem_next m" if "owns m u p" for u p
      using ok that memory_ok_owned [OF ok] by (auto simp: owns_def)
    with x own old kept show ?thesis unfolding runs_members_def by (auto split: if_splits)
  qed
  with \<open>completed (mem_os m) \<subseteq> completed (mem_os m')\<close> show ?thesis by simp
qed

section \<open>Joining\<close>

lemma join_executes:
  assumes ok: "memory_ok m" and runs: "runs_members executes m" and q: "mem_abstract m q = Some a"
    and run: "abstract_thread_join P t q m = Some (r, m')"
  shows "runs_members executes m' \<and> completed (mem_os m) \<subseteq> completed (mem_os m')
    \<and> (r = Inr () \<longrightarrow> has_thread m q \<longrightarrow> q \<in> completed (mem_os m'))"
proof (cases "ab_thread a")
  case None
  with run q runs show ?thesis
    by (auto simp: abstract_thread_join_def thread_run has_thread_def owns_def)
next
  case (Some p)
  from memory_ok_owned [OF ok q Some] obtain x
    where x: "mem_threads m p = Some x" and xok: "thread_ok p x" by blast
  have own: "owns m q p' \<longleftrightarrow> p' = p" for p' using q Some by (auto simp: owns_def)
  have has: "has_thread m q \<longleftrightarrow> th_thread x \<noteq> 0" using x own by (auto simp: has_thread_def)
  have join: "thread_join P t p m = Some (r, m')"
    using run q Some by (simp add: abstract_thread_join_def thread_run)
  show ?thesis
  proof (cases "th_thread x = 0 \<or> th_thread x = t")
    case True
    with join runs has show ?thesis unfolding thread_join_run [OF x xok] by auto
  next
    case False
    then obtain rc os where c: "pthread_join P t (th_thread x) (mem_os m) = Some (rc, os)"
      using join unfolding thread_join_run [OF x xok] by (auto split: option.splits)
    have mine: "executes (mem_os m) (th_thread x) = Some q"
      using runs own x False by (auto simp: runs_members_def)
    note ended = join_completes [OF mine c] and mono = join_keeps_completed [OF c]
    show ?thesis
    proof (cases "rc = 0")
      case True
      with join c False have r: "r = Inr ()"
        and m': "m' = put_thread m os p (x\<lparr>th_status := not_a_thread, th_thread := 0\<rparr>)"
        unfolding thread_join_run [OF x xok] by auto
      have "owns m' = owns m" by (simp add: m' owns_def fun_eq_iff)
      moreover have "executes os (th_thread y) = Some u"
        if "owns m u p'" "mem_threads m p' = Some y" "th_thread y \<noteq> 0" "p' \<noteq> p" for u p' y
      proof -
        have e: "executes (mem_os m) (th_thread y) = Some u" using runs that by (auto simp: runs_members_def)
        have "u \<noteq> q" using that(1,4) own by auto
        with e mine have "th_thread y \<noteq> th_thread x" by auto
        from join_others [OF c this e] show ?thesis .
      qed
      ultimately have "runs_members executes m'" by (auto simp: runs_members_def m')
      with r True ended mono show ?thesis by (simp add: m')
    next
      case no: False
      with join c False ended have e: "\<exists>e. r = Inl (Thrown e)" and m': "m' = m\<lparr>mem_os := os\<rparr>"
        unfolding thread_join_run [OF x xok] by auto
      have "owns m' = owns m" by (simp add: m' owns_def fun_eq_iff)
      with failed_join [OF c no] runs have "runs_members executes m'"
        by (simp add: runs_members_def m' persist_def)
      with e mono show ?thesis by (auto simp: m')
    qed
  qed
qed

section \<open>Groups\<close>

lemma group_start_executes:
  "memory_ok m \<Longrightarrow> runs_members executes m \<Longrightarrow> set qs \<subseteq> dom (mem_abstract m) \<Longrightarrow>
     for_each (abstract_thread_start P t) qs m = Some (r, m') \<Longrightarrow>
     runs_members executes m' \<and> dom (mem_abstract m) \<subseteq> dom (mem_abstract m')"
proof (induction qs arbitrary: m)
  case (Cons q qs)
  from Cons.prems(3) obtain a where q: "mem_abstract m q = Some a" by auto
  from Cons.prems(4) have "bind (abstract_thread_start P t q) (\<lambda>_. for_each (abstract_thread_start P t) qs) m
      = Some (r, m')" by simp
  then show ?case
  proof (cases rule: bind_Some_E)
    case (failed f)
    from start_executes [OF Cons.prems(1,2) q failed(1)] start_outcome [OF Cons.prems(1) q, of t]
      failed(1) show ?thesis by auto
  next
    case (went_on u m1)
    from start_outcome [OF Cons.prems(1) q, of t] went_on(1)
    have ok1: "memory_ok m1" and d: "dom (mem_abstract m) \<subseteq> dom (mem_abstract m1)" by auto
    have runs1: "runs_members executes m1"
      using start_executes [OF Cons.prems(1,2) q went_on(1)] by blast
    have "set qs \<subseteq> dom (mem_abstract m)" using Cons.prems(3) by simp
    with d have "set qs \<subseteq> dom (mem_abstract m1)" by (rule order_trans [rotated])
    from Cons.IH [OF ok1 runs1 this went_on(2)] d show ?thesis by auto
  qed
qed simp

text \<open>The loop of \<open>join\<close> completes every member that has a thread.\<close>

lemma group_join_executes:
  assumes "memory_ok m" and "runs_members executes m" and "set qs \<subseteq> dom (mem_abstract m)"
    and "distinct qs" and "\<forall>q \<in> set qs. has_thread m q"
    and "for_each (\<lambda>q. bind (abstract_thread_joinable q) (\<lambda>joinable.
         if joinable then abstract_thread_join P t q else ret ())) qs m = Some (Inr (), m')"
  shows "completed (mem_os m) \<union> set qs \<subseteq> completed (mem_os m')"
  using assms
proof (induction qs arbitrary: m)
  case (Cons q qs)
  let ?body = "\<lambda>q. bind (abstract_thread_joinable q) (\<lambda>joinable.
         if joinable then abstract_thread_join P t q else ret ())"
  from Cons.prems(3) obtain a where q: "mem_abstract m q = Some a" by auto
  have has: "has_thread m q" using Cons.prems(5) by simp
  have "bind (?body q) (\<lambda>_. for_each ?body qs) m = Some (Inr (), m')" using Cons.prems(6) by simp
  then obtain u m1 where "?body q m = Some (Inr u, m1)" and rest: "for_each ?body qs m1 = Some (Inr (), m')"
    by (rule bind_Some_Inr_E)
  then have join: "abstract_thread_join P t q m = Some (Inr (), m1)"
    using abstract_thread_joinable_run [OF Cons.prems(1) q] has by (simp add: bind_Inr)
  have ok1: "memory_ok m1" and abs: "mem_abstract m1 = mem_abstract m"
    and others: "\<forall>p. \<not> owns m q p \<longrightarrow> mem_threads m1 p = mem_threads m p"
    using abstract_thread_join_outcome [OF Cons.prems(1) q join] by blast+
  have runs1: "runs_members executes m1" and "completed (mem_os m) \<subseteq> completed (mem_os m1)"
    and "q \<in> completed (mem_os m1)"
    using join_executes [OF Cons.prems(1,2) q join] has by blast+
  moreover have "has_thread m1 u" if "u \<in> set qs" for u
  proof -
    have "u \<noteq> q" and "has_thread m u" using that Cons.prems(4,5) by auto
    with has_thread_join_other [OF Cons.prems(1) abs others] show ?thesis by simp
  qed
  then have "completed (mem_os m1) \<union> set qs \<subseteq> completed (mem_os m')"
    using Cons.IH [OF ok1 runs1 _ _ _ rest] Cons.prems(3,4) abs by auto
  ultimately show ?case by auto
qed simp

end

section \<open>Properties\<close>

text \<open>C24: when a group has been started and then joined, and neither threw, the \<open>run\<close> method of every
  member has been executed to its end.\<close>

theorem thread_group_runs_every_member:
  assumes P: "posix_execution P live executes completed"
    and ok: "memory_ok m" and runs: "runs_members executes m"
    and dom: "set (tg_threads g) \<subseteq> dom (mem_abstract m)" and dist: "distinct (tg_threads g)"
    and run: "seq (thread_group_start P t g) (thread_group_join P t g) m = Some (Inr (), m')"
  shows "set (tg_threads g) \<subseteq> completed (mem_os m')"
proof -
  have P': "posix_threads P live" using P by (rule posix_execution.axioms(1))
  from run obtain m1 where start: "thread_group_start P t g m = Some (Inr (), m1)"
    and join: "thread_group_join P t g m1 = Some (Inr (), m')" by (auto simp: bind_returns_iff)
  from posix_threads.group_start_outcome [OF P' ok dom dist, of t] start
  have ok1: "memory_ok m1" and has: "\<forall>q \<in> set (tg_threads g). has_thread m1 q"
    unfolding thread_group_start_def by auto
  from posix_execution.group_start_executes [OF P ok runs dom start [unfolded thread_group_start_def]] dom
  have runs1: "runs_members executes m1" and dom1: "set (tg_threads g) \<subseteq> dom (mem_abstract m1)" by auto
  from posix_execution.group_join_executes [OF P ok1 runs1 dom1 dist has join [unfolded thread_group_join_def]]
  show ?thesis by blast
qed

interpretation ref_execution: posix_execution ref_threads ro_live ro_runs "\<lambda>w. set (ro_done w)"
  by unfold_locales
    (auto simp: ref_threads_def ref_create_def ref_join_def persist_def errno_defs EAGAIN_def
      split: if_splits option.splits)

lemma group_memory_runs: "runs_members ro_runs group_memory"
  by (auto simp: runs_members_def owns_def group_memory_def ref_memory_def split: if_splits)

lemma thread_group_runs_every_member_witness:
  "\<exists>m'. seq (thread_group_start ref_threads 9 (thread_group_add 11 (thread_group_ctor True)))
       (thread_group_join ref_threads 9 (thread_group_add 11 (thread_group_ctor True))) group_memory = Some (Inr (), m')
     \<and> 11 \<in> set (ro_done (mem_os m'))"
proof -
  let ?g = "thread_group_add 11 (thread_group_ctor True)"
  let ?run = "seq (thread_group_start ref_threads 9 ?g) (thread_group_join ref_threads 9 ?g) group_memory"
  have g: "tg_threads ?g = [11]" by (simp add: thread_group_add_def thread_group_ctor_def)
  have "map_option fst ?run = Some (Inr ())" by code_simp
  then obtain m' where run: "?run = Some (Inr (), m')" by (cases ?run) auto
  have "set (tg_threads ?g) \<subseteq> dom (mem_abstract group_memory)" and "distinct (tg_threads ?g)"
    unfolding g by (simp_all add: group_memory_def)
  from thread_group_runs_every_member [OF ref_execution.posix_execution_axioms group_memory_ok
      group_memory_runs this run] run
  show ?thesis by (simp add: g)
qed

end
