(* ===== verification/Queue_Programs.thy ===== *)
theory Queue_Programs
  imports Producers_Consumers Thread_Execution
begin

text \<open>
  The parts together: the members of a thread group are the producers and consumers of a queue.
  \<open>thread_group::start\<close> creates their threads, which run while further ones are created and while
  \<open>thread_group::join\<close> waits for them, one after the other.  When their numbers match, \<open>join\<close> comes
  back, and if it does so without an exception every item has been handed over.
\<close>

section \<open>Threads that are created while others run\<close>

text \<open>A thread that is out of the queue and has no call left.\<close>

definition through :: "pthread_t \<Rightarrow> 'a config \<Rightarrow> bool" where
  "through u c \<longleftrightarrow> sys_pc (fst c) u = Idle \<and> snd c u = []"

lemma quiet_step_idle:
  assumes "quiet_step s s'" and "sys_pc s u = Idle"
  shows "sys_pc s' u = Idle"
proof -
  from assms(1) obtain v where "step s s'" and v: "moving s v" "sys_pc s' v \<noteq> sys_pc s v"
    by (auto simp: quiet_step_def)
  from this(1) show ?thesis
  proof cases
    case (start t op)
    with v assms(2) show ?thesis by (auto simp: moving_def split: if_splits)
  qed (use assms(2) in auto)
qed

lemma through_step: "client_step c c' \<Longrightarrow> through u c \<Longrightarrow> through u c'"
  by (auto simp: through_def elim!: client_step.cases client_move.cases intro: quiet_step_idle)

lemma through_run: "client_step\<^sup>*\<^sup>* c c' \<Longrightarrow> through u c \<Longrightarrow> through u c'"
  by (induction rule: rtranclp_induct) (auto intro: through_step)

lemma no_program_through: "client_step\<^sup>*\<^sup>* (begin_with n prog) c \<Longrightarrow> prog u = [] \<Longrightarrow> through u c"
  by (erule through_run) (simp add: through_def begin_with_def)

text \<open>What the others do, they also do beside a thread that has not begun.\<close>

lemma client_step_beside:
  assumes "client_step (s, todo) (s', todo')" and "through u (s, todo)"
  shows "client_step (s, todo(u := ops)) (s', todo'(u := ops))"
  using assms(1)
proof cases
  case moves
  then show ?thesis
  proof cases
    case (call_next t op rest)
    with assms(2) have "t \<noteq> u" by (auto simp: through_def)
    with call_next client_move.call_next [of s t "todo(u := ops)" op rest] show ?thesis
      by (auto simp: fun_upd_twist intro: client_step.moves)
  next
    case go_on
    then show ?thesis by (auto intro: client_step.moves client_move.go_on)
  qed
qed (auto intro: client_step.wakes_up)

lemma client_run_beside:
  assumes "client_step\<^sup>*\<^sup>* (begin_with n prog) c" and "prog u = []"
  shows "client_step\<^sup>*\<^sup>* (begin_with n (prog(u := ops))) (fst c, (snd c)(u := ops))"
  using assms(1)
proof (induction rule: rtranclp_induct)
  case base
  then show ?case by (simp add: begin_with_def)
next
  case (step c c')
  have "through u (fst c, snd c)" using no_program_through [OF step.hyps(1) assms(2)] by simp
  with step.hyps(2) have "client_step (fst c, (snd c)(u := ops)) (fst c', (snd c')(u := ops))"
    by (intro client_step_beside) simp_all
  with step.IH show ?case by (rule rtranclp.rtrancl_into_rtrancl)
qed

section \<open>The system\<close>

text \<open>
  \<open>created\<close> tells which object's \<open>run\<close> a thread was created for, \<open>calls\<close> which calls of the queue
  that method makes.
\<close>

definition programs_of :: "(addr \<Rightarrow> 'a op list) \<Rightarrow> (pthread_t \<Rightarrow> addr option) \<Rightarrow> 'a prog" where
  "programs_of calls st = (\<lambda>u. case st u of None \<Rightarrow> [] | Some q \<Rightarrow> calls q)"

lemma programs_of_upd: "programs_of calls (st(u \<mapsto> q)) = (programs_of calls st)(u := calls q)"
  by (auto simp: programs_of_def fun_eq_iff)

text \<open>
  The threads run while a function of the system does; identifiers are not used again.  The join
  of a thread comes back when the thread is through; it does not if the thread never is: the
  threads move for ever, or they stop before it is through.
\<close>

locale client_os = posix_execution P live executes completed
  for P :: "('at, 'w, 'z) thread_api_scheme" and live :: "'w \<Rightarrow> int"
    and executes :: "'w \<Rightarrow> pthread_t \<Rightarrow> addr option" and completed :: "'w \<Rightarrow> addr set" +
  fixes created :: "'w \<Rightarrow> pthread_t \<Rightarrow> addr option" and config :: "'w \<Rightarrow> 'a config"
    and calls :: "addr \<Rightarrow> 'a op list"
  assumes init_runs: "pthread_attr_init P w = (r, w') \<Longrightarrow>
        created w' = created w \<and> client_step\<^sup>*\<^sup>* (config w) (config w')"
    and setdetachstate_runs: "pthread_attr_setdetachstate P st a w = (r, w') \<Longrightarrow>
        created w' = created w \<and> client_step\<^sup>*\<^sup>* (config w) (config w')"
    and setstacksize_runs: "pthread_attr_setstacksize P sz a w = (r, w') \<Longrightarrow>
        created w' = created w \<and> client_step\<^sup>*\<^sup>* (config w) (config w')"
    and create_starts: "pthread_create P t a q w = ((0, tid), w') \<Longrightarrow>
        created w tid = None \<and> created w' = (created w)(tid \<mapsto> q)
        \<and> (\<exists>s todo. client_step\<^sup>*\<^sup>* (config w) (s, todo) \<and> config w' = (s, todo(tid := calls q)))"
    and join_runs: "pthread_join P t u w = Some (rc, w') \<Longrightarrow>
        created w' = created w \<and> client_step\<^sup>*\<^sup>* (config w) (config w')"
    and join_waits: "executes w u = Some q \<Longrightarrow> pthread_join P t u w = Some (0, w') \<Longrightarrow>
        through u (config w')"
    and join_blocks: "executes w u = Some q \<Longrightarrow> pthread_join P t u w = None \<Longrightarrow>
        (\<exists>f. f 0 = config w \<and> (\<forall>i::nat. client_move (f i) (f (Suc i))))
        \<or> (\<exists>c. client_move\<^sup>*\<^sup>* (config w) c \<and> (\<nexists>c'. client_move c c') \<and> \<not> through u c)"

text \<open>A program that has run since a queue was constructed, and one whose numbers match.\<close>

definition begun ::
  "cint \<Rightarrow> (addr \<Rightarrow> 'a op list) \<Rightarrow> (pthread_t \<Rightarrow> addr option) \<Rightarrow> 'a config \<Rightarrow> bool" where
  "begun n calls st c \<longleftrightarrow> client_step\<^sup>*\<^sup>* (begin_with n (programs_of calls st)) c"

definition matching :: "cint \<Rightarrow> 'a prog \<Rightarrow> bool" where
  "matching n prog \<longleftrightarrow> separate prog \<and> 0 < capacity n
     \<and> gets_in prog \<le> puts_in prog \<and> puts_in prog \<le> gets_in prog + capacity n"

text \<open>The thread of an object.\<close>

definition runs_in :: "('at, 'w) memory \<Rightarrow> addr \<Rightarrow> pthread_t \<Rightarrow> bool" where
  "runs_in m q u \<longleftrightarrow> (\<exists>p x. owns m q p \<and> mem_threads m p = Some x \<and> th_thread x = u)"

text \<open>Where a program whose numbers match comes to rest, every thread is through.\<close>

lemma matching_ends:
  assumes "begun n calls st c" and "matching n (programs_of calls st)"
    and "client_move\<^sup>*\<^sup>* c c'" and "\<nexists>c''. client_move c' c''"
  shows "through u c'"
proof -
  let ?prog = "programs_of calls st"
  have "client_step\<^sup>*\<^sup>* c c'"
    using assms(3) by (rule mono_rtranclp [rule_format, rotated]) (rule moves)
  with assms(1) have "client_step\<^sup>*\<^sup>* (begin_with n ?prog) c'"
    unfolding begun_def by (rule rtranclp_trans)
  then have "inv_program n ?prog c'"
    using assms(2) by (intro inv_program_run [OF _ _ inv_program_begin]) (simp_all add: matching_def)
  with assms(2,4) have "finished ?prog c'"
    unfolding matching_def by (cases c') (auto intro!: at_rest_finished)
  then show ?thesis by (simp add: finished_def through_def)
qed

context client_os
begin

section \<open>Starting\<close>

lemma start_one:
  assumes ok: "memory_ok m" and q: "mem_abstract m q = Some a"
    and begun: "begun n calls (created (mem_os m)) (config (mem_os m))"
    and run: "abstract_thread_start P t q m = Some (Inr (), m')"
  shows "\<exists>u. created (mem_os m) u = None \<and> created (mem_os m') = (created (mem_os m))(u \<mapsto> q)
    \<and> runs_in m' q u \<and> begun n calls (created (mem_os m')) (config (mem_os m'))
    \<and> (\<forall>v r. v \<noteq> q \<longrightarrow> runs_in m v r \<longrightarrow> runs_in m' v r)"
proof -
  let ?I = "\<lambda>w. created w = created (mem_os m) \<and> client_step\<^sup>*\<^sup>* (config (mem_os m)) (config w)"
  have "\<exists>w at tid p x. ?I w \<and> pthread_create P t at q w = ((0, tid), mem_os m')
      \<and> owns m' q p \<and> mem_threads m' p = Some x \<and> th_thread x = tid"
  proof (rule start_creates [where I = ?I, OF q _ run])
    have on: "?I v" if "?I w" "created v = created w \<and> client_step\<^sup>*\<^sup>* (config w) (config v)" for v w
      using that by (auto intro: rtranclp_trans)
    show "?I (snd (pthread_attr_init P w))" if "?I w" for w
      using that init_runs [OF prod.collapse [symmetric]] by (rule on)
    show "?I (snd (pthread_attr_setdetachstate P PTHREAD_CREATE_JOINABLE a w))" if "?I w" for a w
      using that setdetachstate_runs [OF prod.collapse [symmetric]] by (rule on)
    show "?I (snd (pthread_attr_setstacksize P k a w))" if "?I w" for a w k
      using that setstacksize_runs [OF prod.collapse [symmetric]] by (rule on)
  qed simp
  then obtain w at u where w: "?I w" and c: "pthread_create P t at q w = ((0, u), mem_os m')"
    and "runs_in m' q u" unfolding runs_in_def by blast
  from create_starts [OF c] obtain s todo where new: "created w u = None"
    "created (mem_os m') = (created w)(u \<mapsto> q)" and "client_step\<^sup>*\<^sup>* (config w) (s, todo)"
    and config: "config (mem_os m') = (s, todo(u := calls q))" by blast
  with begun w have "client_step\<^sup>*\<^sup>* (begin_with n (programs_of calls (created w))) (s, todo)"
    unfolding begun_def by (metis rtranclp_trans)
  from client_run_beside [OF this, of u "calls q"] new config
  have "begun n calls (created (mem_os m')) (config (mem_os m'))"
    by (simp add: begun_def programs_of_upd) (simp add: programs_of_def)
  moreover have "runs_in m' v r" if "v \<noteq> q" "runs_in m v r" for v r
  proof -
    from that(2) obtain p x where p: "owns m v p" "mem_threads m p = Some x" "th_thread x = r"
      by (auto simp: runs_in_def)
    then have "p < mem_next m" using memory_ok_owned [OF ok] by (auto simp: owns_def)
    with start_outcome [OF ok q, of t] run p that(1) show ?thesis
      by (auto simp: runs_in_def owns_def)
  qed
  ultimately show ?thesis using w new \<open>runs_in m' q u\<close> by auto
qed

lemma start_all:
  assumes "memory_ok m" and "set qs \<subseteq> dom (mem_abstract m)" and "distinct qs"
    and "begun n calls (created (mem_os m)) (config (mem_os m))"
    and "for_each (abstract_thread_start P t) qs m = Some (Inr (), m')"
  shows "\<exists>us. length us = length qs \<and> distinct us \<and> (\<forall>u \<in> set us. created (mem_os m) u = None)
    \<and> created (mem_os m') = created (mem_os m) ++ map_of (zip us qs)
    \<and> (\<forall>(u, q) \<in> set (zip us qs). runs_in m' q u)
    \<and> (\<forall>v r. v \<notin> set qs \<longrightarrow> runs_in m v r \<longrightarrow> runs_in m' v r)
    \<and> begun n calls (created (mem_os m')) (config (mem_os m'))"
  using assms
proof (induction qs arbitrary: m)
  case (Cons q qs)
  from Cons.prems(2) obtain a where q: "mem_abstract m q = Some a" by auto
  from Cons.prems(5) have "seq (abstract_thread_start P t q) (for_each (abstract_thread_start P t) qs) m
      = Some (Inr (), m')" by simp
  then obtain m1 where run: "abstract_thread_start P t q m = Some (Inr (), m1)"
    and rest: "for_each (abstract_thread_start P t) qs m1 = Some (Inr (), m')"
    by (auto simp: bind_returns_iff)
  from start_outcome [OF Cons.prems(1) q, of t] run have ok1: "memory_ok m1"
    and dom1: "dom (mem_abstract m) \<subseteq> dom (mem_abstract m1)" by auto
  from start_one [OF Cons.prems(1) q Cons.prems(4) run] obtain u where u: "created (mem_os m) u = None"
    "created (mem_os m1) = (created (mem_os m))(u \<mapsto> q)" "runs_in m1 q u"
    "begun n calls (created (mem_os m1)) (config (mem_os m1))"
    "\<forall>v r. v \<noteq> q \<longrightarrow> runs_in m v r \<longrightarrow> runs_in m1 v r" by blast
  from Cons.prems(2) have "set qs \<subseteq> dom (mem_abstract m)" by simp
  with dom1 have "set qs \<subseteq> dom (mem_abstract m1)" by (rule order_trans [rotated])
  from Cons.IH [OF ok1 this _ u(4) rest] Cons.prems(3) obtain us where us: "length us = length qs"
    "distinct us" "\<forall>v \<in> set us. created (mem_os m1) v = None"
    "created (mem_os m') = created (mem_os m1) ++ map_of (zip us qs)"
    "\<forall>(u, q) \<in> set (zip us qs). runs_in m' q u"
    "\<forall>v r. v \<notin> set qs \<longrightarrow> runs_in m1 v r \<longrightarrow> runs_in m' v r"
    "begun n calls (created (mem_os m')) (config (mem_os m'))" by auto
  have "u \<notin> set us" and fresh: "\<forall>v \<in> set us. created (mem_os m) v = None"
    using us(3) u(2) by (auto split: if_splits)
  then have "u \<notin> dom (map_of (zip us qs))" using us(1) by simp
  then have all: "created (mem_os m') = created (mem_os m) ++ map_of (zip (u # us) (q # qs))"
    using us(4) u(2) by (auto simp: map_add_upd_left)
  show ?case
  proof (intro exI [of _ "u # us"] conjI)
    show "created (mem_os m') = created (mem_os m) ++ map_of (zip (u # us) (q # qs))" by (rule all)
  qed (use us(1,2,5-7) u(1,3,5) Cons.prems(3) \<open>u \<notin> set us\<close> fresh in auto)
qed simp

section \<open>Joining\<close>

text \<open>A program whose numbers match comes to its end, so that no join blocks for ever.\<close>

lemma join_returns:
  assumes "begun n calls (created w) (config w)" and "matching n (programs_of calls (created w))"
    and u: "executes w u = Some q"
  shows "pthread_join P t u w \<noteq> None"
  using join_blocks [OF u, of t] no_endless_program matching_ends [OF assms(1,2)] by blast

lemma join_one:
  assumes ok: "memory_ok m" and runs: "runs_members executes m" and q: "mem_abstract m q = Some a"
    and has: "has_thread m q"
    and begun: "begun n calls (created (mem_os m)) (config (mem_os m))"
    and fits: "matching n (programs_of calls (created (mem_os m)))"
  shows "\<exists>r m'. abstract_thread_join P t q m = Some (r, m') \<and> (r = Inr () \<longrightarrow>
    created (mem_os m') = created (mem_os m) \<and> client_step\<^sup>*\<^sup>* (config (mem_os m)) (config (mem_os m'))
    \<and> (\<forall>u. runs_in m q u \<longrightarrow> through u (config (mem_os m'))))"
proof -
  from has obtain p x where own: "owns m q p" and x: "mem_threads m p = Some x" and "th_thread x \<noteq> 0"
    by (auto simp: has_thread_def)
  from own q have p: "ab_thread a = Some p" by (auto simp: owns_def)
  with memory_ok_owned [OF ok q] x have xok: "thread_ok p x" by force
  have mine: "executes (mem_os m) (th_thread x) = Some q"
    using runs own x \<open>th_thread x \<noteq> 0\<close> by (auto simp: runs_members_def)
  have only: "u = th_thread x" if "runs_in m q u" for u
    using that own x by (auto simp: runs_in_def owns_def)
  have run: "abstract_thread_join P t q m = thread_join P t p m"
    using q p by (simp add: abstract_thread_join_def thread_run)
  from join_returns [OF begun fits mine, of t] obtain rc os
    where c: "pthread_join P t (th_thread x) (mem_os m) = Some (rc, os)" by fastforce
  from join_completes [OF mine c] have "rc \<noteq> ESRCH" by blast
  with join_runs [OF c] join_waits [OF mine, of t os] c only \<open>th_thread x \<noteq> 0\<close> show ?thesis
    unfolding run thread_join_run [OF x xok] by auto
qed

lemma join_all:
  assumes "memory_ok m" and "runs_members executes m" and "set qs \<subseteq> dom (mem_abstract m)"
    and "distinct qs" and "\<forall>q \<in> set qs. has_thread m q"
    and "begun n calls (created (mem_os m)) (config (mem_os m))"
    and "matching n (programs_of calls (created (mem_os m)))"
  shows "\<exists>r m'. for_each (\<lambda>q. bind (abstract_thread_joinable q) (\<lambda>joinable.
      if joinable then abstract_thread_join P t q else ret ())) qs m = Some (r, m')
    \<and> (r = Inr () \<longrightarrow> created (mem_os m') = created (mem_os m)
      \<and> client_step\<^sup>*\<^sup>* (config (mem_os m)) (config (mem_os m'))
      \<and> (\<forall>q \<in> set qs. \<forall>u. runs_in m q u \<longrightarrow> through u (config (mem_os m'))))"
  using assms
proof (induction qs arbitrary: m)
  case (Cons q qs)
  let ?body = "\<lambda>q. bind (abstract_thread_joinable q) (\<lambda>joinable.
         if joinable then abstract_thread_join P t q else ret ())"
  from Cons.prems(3) obtain a where q: "mem_abstract m q = Some a" by auto
  have has: "has_thread m q" using Cons.prems(5) by simp
  from join_one [OF Cons.prems(1,2) q has Cons.prems(6,7), of t] obtain r m1
    where join: "abstract_thread_join P t q m = Some (r, m1)"
      and ends: "r = Inr () \<longrightarrow> created (mem_os m1) = created (mem_os m)
        \<and> client_step\<^sup>*\<^sup>* (config (mem_os m)) (config (mem_os m1))
        \<and> (\<forall>u. runs_in m q u \<longrightarrow> through u (config (mem_os m1)))" by blast
  then have body: "?body q m = Some (r, m1)"
    using abstract_thread_joinable_run [OF Cons.prems(1) q] has by (simp add: bind_Inr)
  show ?case
  proof (cases r)
    case (Inl f)
    with body show ?thesis by (auto simp: bind_Inl)
  next
    case (Inr b)
    have ok1: "memory_ok m1" and abs: "mem_abstract m1 = mem_abstract m"
      and others: "\<forall>p. \<not> owns m q p \<longrightarrow> mem_threads m1 p = mem_threads m p"
      using abstract_thread_join_outcome [OF Cons.prems(1) q join] by blast+
    have runs1: "runs_members executes m1"
      using join_executes [OF Cons.prems(1,2) q join] by blast
    have same: "created (mem_os m1) = created (mem_os m)"
      and moved: "client_step\<^sup>*\<^sup>* (config (mem_os m)) (config (mem_os m1))"
      and mine: "\<forall>u. runs_in m q u \<longrightarrow> through u (config (mem_os m1))" using ends Inr by simp_all
    have has1: "\<forall>u \<in> set qs. has_thread m1 u"
    proof
      fix u
      assume "u \<in> set qs"
      then have "u \<noteq> q" and "has_thread m u" using Cons.prems(4,5) by auto
      with has_thread_join_other [OF Cons.prems(1) abs others] show "has_thread m1 u" by simp
    qed
    have "owns m1 = owns m" using abs by (simp add: owns_def fun_eq_iff)
    then have others1: "runs_in m1 v u" if "runs_in m v u" "v \<noteq> q" for v u
      using that others Cons.prems(1) by (fastforce simp: runs_in_def memory_ok_def)
    have "begun n calls (created (mem_os m1)) (config (mem_os m1))"
      using Cons.prems(6) moved same by (auto simp: begun_def intro: rtranclp_trans)
    from Cons.IH [OF ok1 runs1 _ _ has1 this] Cons.prems(3,4,7) same abs obtain r' m'
      where rest: "for_each ?body qs m1 = Some (r', m')"
        and ends': "r' = Inr () \<longrightarrow> created (mem_os m') = created (mem_os m1)
          \<and> client_step\<^sup>*\<^sup>* (config (mem_os m1)) (config (mem_os m'))
          \<and> (\<forall>q \<in> set qs. \<forall>u. runs_in m1 q u \<longrightarrow> through u (config (mem_os m')))" by auto
    have "for_each ?body (q # qs) m = Some (r', m')" using body Inr rest by (simp add: bind_Inr)
    moreover have "through u (config (mem_os m'))" if "r' = Inr ()" "v \<in> set (q # qs)" "runs_in m v u" for u v
    proof (cases "v = q")
      case True
      with that(3) mine have "through u (config (mem_os m1))" by simp
      with ends' that(1) show ?thesis by (blast intro: through_run)
    next
      case False
      with that(2) have "v \<in> set qs" by simp
      with ends' that(1) others1 [OF that(3) False] show ?thesis by blast
    qed
    ultimately show ?thesis using ends' same moved by (auto intro: rtranclp_trans)
  qed
qed simp

end

section \<open>An instance\<close>

text \<open>
  The reference system with clients.  Threads move while another one waits in a join, to the point
  where none of them can; which way they go there is left open.
\<close>

definition at_rest_from :: "'a config \<Rightarrow> 'a config" where
  "at_rest_from c = (SOME c'. client_move\<^sup>*\<^sup>* c c' \<and> (\<nexists>c''. client_move c' c''))"

lemma at_rest_from: "client_move\<^sup>*\<^sup>* c (at_rest_from c) \<and> (\<nexists>c''. client_move (at_rest_from c) c'')"
  unfolding at_rest_from_def using program_ends by (rule someI_ex)

record 'a client_world =
  cw_os :: ref_os
  cw_config :: "'a config"

definition on_os :: "(ref_os \<Rightarrow> 'r \<times> ref_os) \<Rightarrow> 'a client_world \<Rightarrow> 'r \<times> 'a client_world" where
  "on_os f w = (case f (cw_os w) of (r, os) \<Rightarrow> (r, w\<lparr>cw_os := os\<rparr>))"

definition client_create :: "(addr \<Rightarrow> 'a op list) \<Rightarrow> pthread_t \<Rightarrow> size_t \<Rightarrow> addr
    \<Rightarrow> 'a client_world \<Rightarrow> (int \<times> pthread_t) \<times> 'a client_world" where
  "client_create calls t a q w = (case ref_create t a q (cw_os w) of ((rc, tid), os) \<Rightarrow>
     ((rc, tid), w\<lparr>cw_os := os, cw_config := (if rc = 0
       then (fst (cw_config w), (snd (cw_config w))(tid := calls q)) else cw_config w)\<rparr>))"

definition client_join :: "pthread_t \<Rightarrow> pthread_t \<Rightarrow> 'a client_world \<Rightarrow> (int \<times> 'a client_world) option" where
  "client_join t u w = (case ref_join t u (cw_os w) of None \<Rightarrow> None
     | Some (rc, os) \<Rightarrow>
         if rc \<noteq> 0 then Some (rc, w\<lparr>cw_os := os\<rparr>)
         else if through u (at_rest_from (cw_config w))
         then Some (0, w\<lparr>cw_os := os, cw_config := at_rest_from (cw_config w)\<rparr>) else None)"

definition client_threads :: "(addr \<Rightarrow> 'a op list) \<Rightarrow> (size_t, 'a client_world) thread_api" where
  "client_threads calls = \<lparr>strerror = ref_strerror,
     pthread_attr_init = on_os (pthread_attr_init ref_threads),
     pthread_attr_destroy = (\<lambda>a. on_os (pthread_attr_destroy ref_threads a)),
     pthread_attr_setdetachstate = (\<lambda>st a. on_os (pthread_attr_setdetachstate ref_threads st a)),
     pthread_attr_setstacksize = (\<lambda>sz a. on_os (pthread_attr_setstacksize ref_threads sz a)),
     pthread_attr_getstacksize = (\<lambda>a. on_os (pthread_attr_getstacksize ref_threads a)),
     pthread_create = client_create calls, pthread_join = client_join,
     usleep = (\<lambda>n w. (0, w)), sleep = (\<lambda>n w. (0, w)), errno = (\<lambda>w. 0),
     pthread_stack_min = 16384\<rparr>"

lemma at_rest_from_steps: "client_step\<^sup>*\<^sup>* c (at_rest_from c)"
  using at_rest_from [of c, THEN conjunct1] by (rule mono_rtranclp [rule_format, rotated]) (rule moves)

lemma adds_calls: "\<exists>todo. client_step\<^sup>*\<^sup>* c (fst c, todo) \<and> (snd c)(t := ops) = todo(t := ops)"
  by (intro exI [of _ "snd c"]) simp

interpretation clients: client_os "client_threads calls" "\<lambda>w. ro_live (cw_os w)" "\<lambda>w. ro_runs (cw_os w)"
    "\<lambda>w. set (ro_done (cw_os w))" "\<lambda>w. ro_runs (cw_os w)" cw_config calls
  for calls :: "addr \<Rightarrow> 'a op list"
proof unfold_locales
  fix t u w w' q
  assume "pthread_join (client_threads calls) t u w = None"
  then have "\<not> through u (at_rest_from (cw_config w))"
    by (auto simp: client_threads_def client_join_def ref_join_def split: if_splits)
  with at_rest_from [of "cw_config w"]
  show "(\<exists>f. f 0 = cw_config w \<and> (\<forall>i::nat. client_move (f i) (f (Suc i))))
      \<or> (\<exists>c. client_move\<^sup>*\<^sup>* (cw_config w) c \<and> (\<nexists>c'. client_move c c') \<and> \<not> through u c)" by blast
qed (auto simp: client_threads_def client_create_def client_join_def on_os_def ref_threads_def ref_create_def
    ref_join_def persist_def errno_defs EAGAIN_def at_rest_from_steps adds_calls split: if_splits option.splits)

section \<open>Properties\<close>

text \<open>The calls and the items of the members of a group.\<close>

definition group_gets :: "(addr \<Rightarrow> 'a op list) \<Rightarrow> addr list \<Rightarrow> nat" where
  "group_gets calls qs = (\<Sum>q\<leftarrow>qs. length (filter is_get (calls q)))"

definition group_puts :: "(addr \<Rightarrow> 'a op list) \<Rightarrow> addr list \<Rightarrow> nat" where
  "group_puts calls qs = (\<Sum>q\<leftarrow>qs. length (filter (\<lambda>op. \<not> is_get op) (calls q)))"

definition group_items :: "(addr \<Rightarrow> 'a op list) \<Rightarrow> addr list \<Rightarrow> 'a multiset" where
  "group_items calls qs = (\<Sum>q\<leftarrow>qs. mset (concat (map put_items (calls q))))"

lemma programs_sum:
  fixes h :: "'a op list \<Rightarrow> 'b::comm_monoid_add"
  assumes "length us = length qs" and "distinct us" and "h [] = 0"
  shows "(\<Sum>u\<in>UNIV. h (programs_of calls (map_of (zip us qs)) u)) = (\<Sum>q\<leftarrow>qs. h (calls q))"
  using assms(1,2)
proof (induction us qs rule: list_induct2)
  case Nil
  with assms(3) show ?case by (simp add: programs_of_def)
next
  case (Cons u us q qs)
  let ?f = "\<lambda>v. h (programs_of calls (map_of (zip (u # us) (q # qs))) v)"
  let ?g = "\<lambda>v. h (programs_of calls (map_of (zip us qs)) v)"
  have "u \<notin> dom (map_of (zip us qs))" using Cons by simp
  then have "?g u = 0" using assms(3) by (auto simp: programs_of_def split: option.split)
  moreover have "(\<Sum>v\<in>UNIV. ?f v) + ?g u = (\<Sum>v\<in>UNIV. ?g v) + ?f u"
    by (rule sum_change) (simp add: programs_of_def)
  ultimately show ?case using Cons by (simp add: programs_of_def add.commute)
qed

lemma group_programs:
  assumes "length us = length qs" and "distinct us"
  shows "gets_in (programs_of calls (map_of (zip us qs))) = group_gets calls qs"
    and "puts_in (programs_of calls (map_of (zip us qs))) = group_puts calls qs"
    and "items_in (programs_of calls (map_of (zip us qs))) = group_items calls qs"
  unfolding gets_in_def puts_in_def items_in_def group_gets_def group_puts_def group_items_def
  using assms by (auto intro!: programs_sum)

lemma group_separate:
  assumes "\<forall>q \<in> set qs. one_kind (calls q)"
  shows "separate (programs_of calls (map_of (zip us qs)))"
  unfolding separate_def
proof
  fix u
  show "one_kind (programs_of calls (map_of (zip us qs)) u)"
  proof (cases "map_of (zip us qs) u")
    case None
    then show ?thesis by (simp add: programs_of_def one_kind_def)
  next
    case (Some q)
    then have "q \<in> set qs" by (blast dest: map_of_SomeD set_zip_rightD)
    with Some assms show ?thesis by (simp add: programs_of_def)
  qed
qed

text \<open>C3: A group of producers and consumers does its work.  Its members' threads are created by
  \<open>start\<close> and already run meanwhile.  When each member makes untimed calls of one kind only, the
  queue has room for an item, and there are enough items for all \<open>get\<close> calls and no more left over
  than fit the queue, then after a \<open>start\<close> that returned \<open>join\<close> comes back, whatever the scheduler
  does; and if it returns, every thread has made all its calls, as many items were got as there are
  \<open>get\<close> calls, and the items got and those in the list are the items put, each once.\<close>

theorem producer_consumer_group_finishes:
  assumes P: "client_os P live executes completed created config calls"
    and ok: "memory_ok m" and runs: "runs_members executes m"
    and dom: "set (tg_threads g) \<subseteq> dom (mem_abstract m)" and dist: "distinct (tg_threads g)"
    and none: "created (mem_os m) = Map.empty" and config: "config (mem_os m) = (initial n, \<lambda>_. [])"
    and kinds: "\<forall>q \<in> set (tg_threads g). one_kind (calls q)" and "0 < capacity n"
    and "group_gets calls (tg_threads g) \<le> group_puts calls (tg_threads g)"
    and "group_puts calls (tg_threads g) \<le> group_gets calls (tg_threads g) + capacity n"
    and start: "thread_group_start P t g m = Some (Inr (), m1)"
  shows "\<exists>r m2 s todo. thread_group_join P t g m1 = Some (r, m2) \<and> config (mem_os m2) = (s, todo)
    \<and> (r = Inr () \<longrightarrow> (\<forall>u. sys_pc s u = Idle \<and> todo u = [])
      \<and> length (sys_got s) = group_gets calls (tg_threads g)
      \<and> mset (sys_got s @ sys_items s) = group_items calls (tg_threads g))"
proof -
  have E: "posix_execution P live executes completed" using P by (rule client_os.axioms(1))
  have T: "posix_threads P live" using E by (rule posix_execution.axioms(1))
  note start' = start [unfolded thread_group_start_def]
  have "begun n calls (created (mem_os m)) (config (mem_os m))"
    by (simp add: begun_def begin_with_def none config programs_of_def)
  from client_os.start_all [OF P ok dom dist this start'] none obtain us
    where us: "length us = length (tg_threads g)" "distinct us"
      and st: "created (mem_os m1) = map_of (zip us (tg_threads g))"
      and mine: "\<forall>(u, q) \<in> set (zip us (tg_threads g)). runs_in m1 q u"
      and begun: "begun n calls (created (mem_os m1)) (config (mem_os m1))" by auto
  let ?prog = "programs_of calls (created (mem_os m1))"
  have fits: "matching n ?prog"
    using assms(9-11) kinds us by (simp add: st matching_def group_programs group_separate)
  from posix_threads.group_start_outcome [OF T ok dom dist, of t] start'
  have ok1: "memory_ok m1" and has: "\<forall>q \<in> set (tg_threads g). has_thread m1 q" by auto
  from posix_execution.group_start_executes [OF E ok runs dom start'] dom
  have runs1: "runs_members executes m1" and dom1: "set (tg_threads g) \<subseteq> dom (mem_abstract m1)" by auto
  from client_os.join_all [OF P ok1 runs1 dom1 dist has begun fits, of t] obtain r m2
    where join: "thread_group_join P t g m1 = Some (r, m2)"
      and ends: "r = Inr () \<longrightarrow> client_step\<^sup>*\<^sup>* (config (mem_os m1)) (config (mem_os m2))
        \<and> (\<forall>q \<in> set (tg_threads g). \<forall>u. runs_in m1 q u \<longrightarrow> through u (config (mem_os m2)))"
    unfolding thread_group_join_def by blast
  obtain s todo where c: "config (mem_os m2) = (s, todo)" by fastforce
  have "finished ?prog (s, todo)" if "r = Inr ()"
  proof -
    have run: "client_step\<^sup>*\<^sup>* (begin_with n ?prog) (s, todo)"
      using begun ends that c by (auto simp: begun_def intro: rtranclp_trans)
    then have inv: "inv_program n ?prog (s, todo)"
      using fits by (intro inv_program_run [OF _ _ inv_program_begin]) (simp_all add: matching_def)
    have "through u (s, todo)" for u
    proof (cases "created (mem_os m1) u")
      case None
      then have "?prog u = []" by (simp add: programs_of_def)
      with run show ?thesis by (rule no_program_through)
    next
      case (Some q)
      then have "(u, q) \<in> set (zip us (tg_threads g))" unfolding st by (rule map_of_SomeD)
      then have "q \<in> set (tg_threads g)" "runs_in m1 q u" using mine by (auto dest: set_zip_rightD)
      with ends that c show ?thesis by auto
    qed
    then show ?thesis by (intro all_done_finished [OF inv]) (simp add: through_def)
  qed
  with join c us show ?thesis by (auto simp: finished_def st group_programs)
qed

text \<open>A producer and a consumer, over a queue for one item.\<close>

definition pair_calls :: "addr \<Rightarrow> nat op list" where
  "pair_calls = (\<lambda>_. [])(1 := [Put 7 False, Put 8 False], 2 := [Get False, Get False])"

definition pair_memory :: "(size_t, nat client_world) memory" where
  "pair_memory = \<lparr>mem_threads = Map.empty,
     mem_abstract = [1 \<mapsto> \<lparr>ab_thread = None, ab_stack_size = 0\<rparr>, 2 \<mapsto> \<lparr>ab_thread = None, ab_stack_size = 0\<rparr>],
     mem_next = 3, mem_output = [], mem_os = \<lparr>cw_os = ref_os0, cw_config = (initial 1, \<lambda>_. [])\<rparr>\<rparr>"

definition pair_group :: thread_group where
  "pair_group = thread_group_add 2 (thread_group_add 1 (thread_group_ctor True))"

lemmas pair_run = thread_group_start_def thread_group_join_def pair_group_def thread_group_add_def
  thread_group_ctor_def abstract_thread_start_def new_thread_def new_object_def thread_ctor_def thread_default_ctor_def
  thread_init_def abstract_thread_joinable_def thread_joinable_def abstract_thread_join_def thread_join_def
  this_thread_get_id_def client_threads_def on_os_def client_create_def client_join_def ref_threads_def
  ref_create_def ref_join_def ref_os0_def pair_memory_def bind_assoc thread_run store_thread_run comp_simps
  on_throw_def

lemma pair_start: "\<exists>m. thread_group_start (client_threads pair_calls) 9 pair_group pair_memory = Some (Inr (), m)"
  by (simp add: pair_run)

lemma pair_numbers:
  "\<forall>q. one_kind (pair_calls q)" "group_gets pair_calls [1, 2] = 2" "group_puts pair_calls [1, 2] = 2"
  "group_items pair_calls [1, 2] = {#7, 8#}" "capacity 1 = 1"
  by (auto simp: pair_calls_def one_kind_def group_gets_def group_puts_def group_items_def capacity_def
      int_to_size_t_def)

lemma pair_join:
  assumes "thread_group_start (client_threads pair_calls) 9 pair_group pair_memory = Some (Inr (), m)"
  shows "\<exists>m2. thread_group_join (client_threads pair_calls) 9 pair_group m = Some (Inr (), m2)"
proof -
  let ?c = "(initial 1, (\<lambda>_. [])(1 := pair_calls 1, 2 := pair_calls 2)) :: nat config"
  let ?st = "map_of (zip [1, 2] [1, 2]) :: pthread_t \<Rightarrow> addr option"
  have "programs_of pair_calls ?st = (\<lambda>_. [])(1 := pair_calls 1, 2 := pair_calls 2)"
    by (auto simp: programs_of_def fun_eq_iff)
  then have begun: "begun 1 pair_calls ?st ?c" by (simp add: begun_def begin_with_def)
  have fits: "matching 1 (programs_of pair_calls ?st)"
    using pair_numbers group_programs [of "[1, 2] :: pthread_t list" "[1, 2]" pair_calls]
      group_separate [of "[1, 2]" pair_calls "[1, 2]"] by (simp add: matching_def)
  from begun at_rest_from_steps [of ?c] have begun': "begun 1 pair_calls ?st (at_rest_from ?c)"
    unfolding begun_def by (rule rtranclp_trans)
  have "through u (at_rest_from ?c)" "through u (at_rest_from (at_rest_from ?c))" for u
    using matching_ends [OF begun fits] matching_ends [OF begun' fits] at_rest_from by blast+
  with assms show ?thesis
    by (auto simp: pair_run)
qed

lemma producer_consumer_group_finishes_witness:
  "\<exists>m1 m2. thread_group_start (client_threads pair_calls) 9 pair_group pair_memory = Some (Inr (), m1)
     \<and> thread_group_join (client_threads pair_calls) 9 pair_group m1 = Some (Inr (), m2)
     \<and> mset (sys_got (fst (cw_config (mem_os m2)))) = {#7, 8#}"
proof -
  obtain m1 where start: "thread_group_start (client_threads pair_calls) 9 pair_group pair_memory = Some (Inr (), m1)"
    using pair_start by blast
  from pair_join [OF this] obtain m2
    where join: "thread_group_join (client_threads pair_calls) 9 pair_group m1 = Some (Inr (), m2)" by blast
  have "memory_ok pair_memory" "runs_members (\<lambda>w. ro_runs (cw_os w)) pair_memory"
    by (auto simp: memory_ok_def threads_ok_def owns_def runs_members_def pair_memory_def split: if_splits)
  moreover have g: "tg_threads pair_group = [1, 2]"
    by (simp add: pair_group_def thread_group_add_def thread_group_ctor_def)
  moreover have "set (tg_threads pair_group) \<subseteq> dom (mem_abstract pair_memory)"
    unfolding g by (simp add: pair_memory_def)
  moreover have "ro_runs (cw_os (mem_os pair_memory)) = Map.empty"
    "cw_config (mem_os pair_memory) = (initial 1, \<lambda>_. [])" by (simp_all add: pair_memory_def ref_os0_def)
  ultimately have "length (sys_got (fst (cw_config (mem_os m2)))) = 2
      \<and> mset (sys_got (fst (cw_config (mem_os m2))) @ sys_items (fst (cw_config (mem_os m2)))) = {#7, 8#}"
    using producer_consumer_group_finishes [OF clients.client_os_axioms _ _ _ _ _ _ _ _ _ _ start, of 1]
      join pair_numbers by fastforce
  then have two: "length (sys_got (fst (cw_config (mem_os m2)))) = 2"
    and all: "mset (sys_got (fst (cw_config (mem_os m2)))) + mset (sys_items (fst (cw_config (mem_os m2)))) = {#7, 8#}"
    by simp_all
  have "length (sys_got (fst (cw_config (mem_os m2)))) + length (sys_items (fst (cw_config (mem_os m2)))) = 2"
    using arg_cong [OF all, of size] by (simp del: size_mset add: size_mset [symmetric])
  with two have "sys_items (fst (cw_config (mem_os m2))) = []" by simp
  with all start join show ?thesis by auto
qed

end
