(* ===== verification/Readers_Writers.thy ===== *)
theory Readers_Writers
  imports Read_Write_Lock
begin

text \<open>
  A read-write lock and the data it guards, used by any number of threads: each of them opens
  scopes with a \<open>lock_guard<read_lock>\<close> or a \<open>lock_guard<write_lock>\<close> on the lock, or takes it by
  one of the two \<open>try_lock\<close> and gives it back by \<open>unlock\<close>.  A step is one call of one thread, made
  by the methods of the model at the moment the call is granted, or one write to the data.
\<close>

section \<open>Threads and the system\<close>

text \<open>The two faces of the lock, and their methods.\<close>

datatype rw_face = Shared | Exclusive

fun face_type :: "('w, 'z) rwlock_api_scheme \<Rightarrow> pthread_t \<Rightarrow> rw_face \<Rightarrow> ('w, rwlock) mutex_type" where
  "face_type P t Shared = read_lock_as_type P t"
| "face_type P t Exclusive = write_lock_as_type P t"

fun face_try_lock ::
  "('w, 'z) rwlock_api_scheme \<Rightarrow> pthread_t \<Rightarrow> rw_face \<Rightarrow> rwlock \<Rightarrow> ('w, exn, unit) comp" where
  "face_try_lock P t Shared = read_lock_try_lock P t"
| "face_try_lock P t Exclusive = write_lock_try_lock P t"

text \<open>
  What a thread between \<open>lock\<close> and \<open>unlock\<close> has: the face it locked, the guard if it used one, and
  what it knows of the data, from when it came in or from its last write.
\<close>

record 'd rw_scope =
  sc_face :: rw_face
  sc_guard :: "rwlock lock_guard option"
  sc_view :: 'd

record ('w, 'd) rw_system =
  rw_world :: 'w
  rw_data :: 'd
  rw_scopes :: "pthread_t \<Rightarrow> 'd rw_scope option"

text \<open>The end of a scope: the destructor of the guard, or the call of \<open>unlock\<close>.\<close>

definition leave_scope ::
  "('w, 'z) rwlock_api_scheme \<Rightarrow> pthread_t \<Rightarrow> rwlock \<Rightarrow> 'd rw_scope \<Rightarrow> ('w, exn, unit) comp" where
  "leave_scope P t l c = (case sc_guard c of
       None \<Rightarrow> read_lock_unlock P t l
     | Some g \<Rightarrow> lock_guard_dtor (face_type P t (sc_face c)) g)"

section \<open>Steps\<close>

inductive rw_step :: "('w, 'z) rwlock_api_scheme \<Rightarrow> rwlock \<Rightarrow>
    ('w, 'd) rw_system \<Rightarrow> ('w, 'd) rw_system \<Rightarrow> bool" for P l where
  enter: "rw_scopes s t = None \<Longrightarrow>
    lock_guard_ctor (face_type P t f) l (rw_world s) = Some (Inr g, w') \<Longrightarrow>
    rw_step P l s (s\<lparr>rw_world := w', rw_scopes := (rw_scopes s)
      (t \<mapsto> \<lparr>sc_face = f, sc_guard = Some g, sc_view = rw_data s\<rparr>)\<rparr>)"
| enter_fails: "rw_scopes s t = None \<Longrightarrow>
    lock_guard_ctor (face_type P t f) l (rw_world s) = Some (Inl e, w') \<Longrightarrow>
    rw_step P l s (s\<lparr>rw_world := w'\<rparr>)"
| try_enter: "rw_scopes s t = None \<Longrightarrow>
    face_try_lock P t f l (rw_world s) = Some (Inr (), w') \<Longrightarrow>
    rw_step P l s (s\<lparr>rw_world := w', rw_scopes := (rw_scopes s)
      (t \<mapsto> \<lparr>sc_face = f, sc_guard = None, sc_view = rw_data s\<rparr>)\<rparr>)"
| try_fails: "rw_scopes s t = None \<Longrightarrow>
    face_try_lock P t f l (rw_world s) = Some (Inl e, w') \<Longrightarrow>
    rw_step P l s (s\<lparr>rw_world := w'\<rparr>)"
| store: "rw_scopes s t = Some c \<Longrightarrow> sc_face c = Exclusive \<Longrightarrow>
    rw_step P l s (s\<lparr>rw_data := d, rw_scopes := (rw_scopes s)(t \<mapsto> c\<lparr>sc_view := d\<rparr>)\<rparr>)"
| leave: "rw_scopes s t = Some c \<Longrightarrow>
    leave_scope P t l c (rw_world s) = Some (Inr (), w') \<Longrightarrow>
    rw_step P l s (s\<lparr>rw_world := w', rw_scopes := (rw_scopes s)(t := None)\<rparr>)"

inductive rw_reachable :: "('w, 'z) rwlock_api_scheme \<Rightarrow> rwlock \<Rightarrow> 'w \<Rightarrow>
    ('w, 'd) rw_system \<Rightarrow> bool" for P l w0 where
  rw_reach_init: "rw_reachable P l w0 \<lparr>rw_world = w0, rw_data = d0, rw_scopes = Map.empty\<rparr>"
| rw_reach_step: "rw_reachable P l w0 s \<Longrightarrow> rw_step P l s s' \<Longrightarrow> rw_reachable P l w0 s'"

section \<open>The methods, over the holds of the lock\<close>

text \<open>How many times a scope holds the lock as a reader.\<close>

fun shared_hold :: "'d rw_scope option \<Rightarrow> nat" where
  "shared_hold None = 0"
| "shared_hold (Some c) = (if sc_face c = Shared then 1 else 0)"

definition writes :: "'d rw_scope option \<Rightarrow> bool" where
  "writes x \<longleftrightarrow> (\<exists>c. x = Some c \<and> sc_face c = Exclusive)"

lemma writes_simps [simp]:
  "\<not> writes None" "writes (Some c) \<longleftrightarrow> sc_face c = Exclusive"
  by (simp_all add: writes_def)

lemma guard_ctor_cases:
  "lock_guard_ctor T m w = Some (Inr g, w') \<longleftrightarrow> g = \<lparr>lg_mutex = m\<rparr> \<and> mt_lock T m w = Some (Inr (), w')"
  "lock_guard_ctor T m w = Some (Inl e, w') \<longleftrightarrow> mt_lock T m w = Some (Inl e, w')"
  by (auto simp: lock_guard_ctor_def Let_def bind_def split: option.splits sum.splits)

lemma read_lock_lock_fails:
  "read_lock_lock P t l w = Some (Inl e, w') \<Longrightarrow> \<exists>rc. rc \<noteq> 0 \<and> pthread_rwlock_rdlock P t l w = Some (rc, w')"
  by (auto simp: read_lock_lock_def bind_def block_def split: option.splits if_splits)

lemma write_lock_lock_fails:
  "write_lock_lock P t l w = Some (Inl e, w') \<Longrightarrow> \<exists>rc. rc \<noteq> 0 \<and> pthread_rwlock_wrlock P t l w = Some (rc, w')"
  by (auto simp: write_lock_lock_def bind_def block_def split: option.splits if_splits)

text \<open>What a granted call changes, and what the open scopes say of the holds.\<close>

fun grants :: "('w \<Rightarrow> addr \<Rightarrow> pthread_t option) \<Rightarrow> ('w \<Rightarrow> addr \<Rightarrow> pthread_t \<Rightarrow> nat) \<Rightarrow>
    rwlock \<Rightarrow> pthread_t \<Rightarrow> rw_face \<Rightarrow> 'w \<Rightarrow> 'w \<Rightarrow> bool" where
  "grants writer readers l t Shared w w' \<longleftrightarrow> writer w l = None \<and> writer w' l = None
     \<and> readers w' l = (readers w l)(t := Suc (readers w l t))"
| "grants writer readers l t Exclusive w w' \<longleftrightarrow> writer w l = None \<and> readers w l = (\<lambda>_. 0)
     \<and> writer w' l = Some t \<and> readers w' l = (\<lambda>_. 0)"

definition allows :: "('w \<Rightarrow> addr \<Rightarrow> pthread_t option) \<Rightarrow> ('w \<Rightarrow> addr \<Rightarrow> pthread_t \<Rightarrow> nat) \<Rightarrow>
    rwlock \<Rightarrow> rw_face \<Rightarrow> 'w \<Rightarrow> bool" where
  "allows writer readers l f w \<longleftrightarrow> writer w l = None \<and> (f = Exclusive \<longrightarrow> readers w l = (\<lambda>_. 0))"

definition rw_inv :: "('w \<Rightarrow> addr \<Rightarrow> pthread_t option) \<Rightarrow> ('w \<Rightarrow> addr \<Rightarrow> pthread_t \<Rightarrow> nat) \<Rightarrow>
    rwlock \<Rightarrow> ('w, 'd) rw_system \<Rightarrow> bool" where
  "rw_inv writer readers l s \<longleftrightarrow>
     (\<forall>t. writer (rw_world s) l = Some t \<longleftrightarrow> writes (rw_scopes s t))
     \<and> readers (rw_world s) l = (\<lambda>t. shared_hold (rw_scopes s t))
     \<and> (\<forall>t c. rw_scopes s t = Some c \<longrightarrow>
          sc_view c = rw_data s \<and> (\<forall>g. sc_guard c = Some g \<longrightarrow> lg_mutex g = l))"

lemma face_guard_ctor:
  "lock_guard_ctor (face_type P t f) l w = Some (Inr g, w') \<longleftrightarrow> g = \<lparr>lg_mutex = l\<rparr>
     \<and> (case f of Shared \<Rightarrow> pthread_rwlock_rdlock P t l w = Some (0, w')
        | Exclusive \<Rightarrow> pthread_rwlock_wrlock P t l w = Some (0, w'))"
  by (cases f) (simp_all add: guard_ctor_cases read_lock_lock_ok_iff write_lock_lock_ok_iff)

lemma leave_scope_ok_iff:
  "(\<forall>g. sc_guard c = Some g \<longrightarrow> lg_mutex g = l) \<Longrightarrow>
     leave_scope P t l c w = Some (Inr (), w') \<longleftrightarrow> pthread_rwlock_unlock P t l w = (0, w')"
  by (cases "sc_face c")
    (auto simp: leave_scope_def lock_guard_dtor_def read_lock_unlock_ok_iff split: option.split)

context posix_rw_holds
begin

lemma enter_grants:
  assumes "lock_guard_ctor (face_type P t f) l w = Some (Inr g, w')"
  shows "grants writer readers l t f w w'"
  using assms rdlock_grants [of t l w 0 w'] wrlock_grants [of t l w 0 w']
  unfolding face_guard_ctor by (cases f) auto

lemma enter_fails_same:
  assumes "lock_guard_ctor (face_type P t f) l w = Some (Inl e, w')"
  shows "writer w' l = writer w l \<and> readers w' l = readers w l"
proof (cases f)
  case Shared
  with assms obtain rc where "rc \<noteq> 0" "pthread_rwlock_rdlock P t l w = Some (rc, w')"
    by (auto simp: guard_ctor_cases dest: read_lock_lock_fails)
  with rdlock_grants [of t l w rc w'] show ?thesis by simp
next
  case Exclusive
  with assms obtain rc where "rc \<noteq> 0" "pthread_rwlock_wrlock P t l w = Some (rc, w')"
    by (auto simp: guard_ctor_cases dest: write_lock_lock_fails)
  with wrlock_grants [of t l w rc w'] show ?thesis by simp
qed

text \<open>
  A \<open>try_lock\<close> that succeeds has been granted, one that throws has changed no hold.  For writing it
  succeeds exactly when the holds allow it; for reading it may be refused without need, but not on
  a lock nobody holds.
\<close>

lemma try_grants:
  assumes "face_try_lock P t f l w = Some (Inr (), w')"
  shows "grants writer readers l t f w w'"
proof (cases f)
  case Shared
  with assms try_lock_read_busy [of w l t] have w: "writer w l = None" by force
  from try_lock_read_cases [OF this, of t] assms Shared show ?thesis
    by (auto simp: w split: if_splits)
next
  case Exclusive
  with assms try_lock_write_busy [of w l t] have w: "writer w l = None" "readers w l = (\<lambda>_. 0)" by force+
  from try_lock_write_free [OF w, of t] assms Exclusive exclusive [of w' l] w show ?thesis by auto
qed

lemma try_fails_same:
  assumes "face_try_lock P t f l w = Some (Inl e, w')"
  shows "writer w' l = writer w l \<and> readers w' l = readers w l"
proof (cases f)
  case Shared
  with assms try_lock_read_busy [of w l t] try_lock_read_cases [of w l t] show ?thesis
    by (cases "writer w l = None") (auto split: if_splits)
next
  case Exclusive
  with assms try_lock_write_busy [of w l t] try_lock_write_free [of w l t] show ?thesis
    by (cases "writer w l = None \<and> readers w l = (\<lambda>_. 0)") auto
qed

lemma grants_allows: "grants writer readers l t f w w' \<Longrightarrow> allows writer readers l f w"
  by (cases f) (simp_all add: allows_def)

lemma try_write_iff:
  "(\<exists>w'. write_lock_try_lock P t l w = Some (Inr (), w')) \<longleftrightarrow> allows writer readers l Exclusive w"
  using try_lock_write_free [of w l t] try_grants [of t Exclusive l w] by (auto simp: allows_def)

lemma try_read_free:
  "allows writer readers l Exclusive w \<Longrightarrow> \<exists>w'. read_lock_try_lock P t l w = Some (Inr (), w')"
  using try_lock_read_free [of w l t] by (simp add: allows_def)

lemma try_read_allowed:
  "read_lock_try_lock P t l w = Some (Inr (), w') \<Longrightarrow> allows writer readers l Shared w"
  using try_grants [of t Shared l w w'] by (simp add: allows_def)

section \<open>The invariant\<close>

lemma rw_inv_excludes:
  assumes "rw_inv writer readers l s" and "rw_scopes s t = Some c" and "sc_face c = Exclusive" and "u \<noteq> t"
  shows "rw_scopes s u = None"
proof -
  from assms have w: "writer (rw_world s) l = Some t" by (simp add: rw_inv_def)
  with exclusive [of "rw_world s" l] assms(1) have "shared_hold (rw_scopes s u) = 0"
    unfolding rw_inv_def by (metis option.distinct(1))
  moreover from w assms(4) have "writer (rw_world s) l \<noteq> Some u" by simp
  with assms(1) have "\<not> writes (rw_scopes s u)" by (simp add: rw_inv_def)
  ultimately show ?thesis by (cases "rw_scopes s u"; cases "sc_face (the (rw_scopes s u))") auto
qed

text \<open>Whoever is inside can leave, and leaves nothing behind.\<close>

lemma leave_ok:
  assumes inv: "rw_inv writer readers l s" and t: "rw_scopes s t = Some c"
  shows "\<exists>w'. leave_scope P t l c (rw_world s) = Some (Inr (), w')
    \<and> writer w' l = None \<and> readers w' l = (readers (rw_world s) l)(t := 0)"
proof -
  from assms have "\<forall>g. sc_guard c = Some g \<longrightarrow> lg_mutex g = l" by (simp add: rw_inv_def)
  note ok = leave_scope_ok_iff [OF this]
  show ?thesis
  proof (cases "sc_face c")
    case Shared
    with assms have "readers (rw_world s) l t = Suc 0" by (simp add: rw_inv_def)
    with unlock_reader [OF this] reader_unlocks [OF this] show ?thesis by (auto simp: ok)
  next
    case Exclusive
    with assms have w: "writer (rw_world s) l = Some t" by (simp add: rw_inv_def)
    with exclusive [of "rw_world s" l] have "readers (rw_world s) l = (\<lambda>_. 0)" by simp
    with unlock_writer [OF w] writer_unlocks [OF w] show ?thesis by (auto simp: ok fun_eq_iff)
  qed
qed

lemma rw_inv_step:
  assumes inv: "rw_inv writer readers l s" and step: "rw_step P l s s'"
  shows "rw_inv writer readers l s'"
  using step
proof cases
  case (enter t f g w')
  from enter(3) enter_grants have granted: "grants writer readers l t f (rw_world s) w'" by blast
  from enter(3) have "lg_mutex g = l" unfolding face_guard_ctor by simp
  with granted enter(1,2) inv show ?thesis by (cases f) (auto simp: rw_inv_def fun_eq_iff)
next
  case (enter_fails t f e w')
  with enter_fails_same [of t f l "rw_world s" e w'] inv show ?thesis by (simp add: rw_inv_def)
next
  case (try_enter t f w')
  with try_grants have "grants writer readers l t f (rw_world s) w'" by blast
  with try_enter inv show ?thesis by (cases f) (auto simp: rw_inv_def fun_eq_iff)
next
  case (try_fails t f e w')
  with try_fails_same [of t f l "rw_world s" e w'] inv show ?thesis by (simp add: rw_inv_def)
next
  case (store t c d)
  with rw_inv_excludes [OF inv store(2,3)] inv show ?thesis by (fastforce simp: rw_inv_def fun_eq_iff)
next
  case (leave t c w')
  from leave_ok [OF inv leave(2)] leave(3)
  have "writer w' l = None" "readers w' l = (readers (rw_world s) l)(t := 0)" by auto
  moreover have "\<not> writes (rw_scopes s u)" if "u \<noteq> t" for u
    using that rw_inv_excludes [OF inv, of u _ t] leave(2) by (auto simp: writes_def)
  ultimately show ?thesis using leave(1) inv by (auto simp: rw_inv_def fun_eq_iff)
qed

lemma rw_inv_reachable:
  assumes "writer w0 l = None" and "readers w0 l = (\<lambda>_. 0)" and "rw_reachable P l w0 s"
  shows "rw_inv writer readers l s"
  using assms(3)
proof induction
  case (rw_reach_init d0)
  with assms(1,2) show ?case by (simp add: rw_inv_def)
next
  case (rw_reach_step s s')
  then show ?case by (blast intro: rw_inv_step)
qed

text \<open>What the holds allow, read off the scopes.\<close>

lemma rw_inv_allows:
  assumes inv: "rw_inv writer readers l s"
  shows "allows writer readers l Shared (rw_world s)
      \<longleftrightarrow> (\<forall>u c. rw_scopes s u = Some c \<longrightarrow> sc_face c = Shared)" (is ?shared)
    and "allows writer readers l Exclusive (rw_world s) \<longleftrightarrow> rw_scopes s = Map.empty" (is ?exclusive)
proof -
  have "writer (rw_world s) l = None \<longleftrightarrow> (\<forall>u. \<not> writes (rw_scopes s u))"
    using inv by (cases "writer (rw_world s) l") (auto simp: rw_inv_def)
  moreover have "\<not> writes x \<longleftrightarrow> (\<forall>c. x = Some c \<longrightarrow> sc_face c = Shared)" for x :: "'d rw_scope option"
    by (cases x; cases "sc_face (the x)") auto
  ultimately have no_writer: "writer (rw_world s) l = None
      \<longleftrightarrow> (\<forall>u c. rw_scopes s u = Some c \<longrightarrow> sc_face c = Shared)" by metis
  then show ?shared by (simp add: allows_def)
  have "readers (rw_world s) l u = shared_hold (rw_scopes s u)" for u
    using inv by (simp add: rw_inv_def)
  then have "readers (rw_world s) l = (\<lambda>_. 0) \<longleftrightarrow> (\<forall>u. shared_hold (rw_scopes s u) = 0)"
    by (simp add: fun_eq_iff)
  moreover have "shared_hold x = 0 \<and> (\<forall>c. x = Some c \<longrightarrow> sc_face c = Shared) \<longleftrightarrow> x = None"
    for x :: "'d rw_scope option" by (cases x) auto
  ultimately show ?exclusive using no_writer by (auto simp: allows_def fun_eq_iff) metis+
qed

lemma free_enter:
  assumes "rw_inv writer readers l s" and "rw_scopes s = Map.empty"
  shows "\<exists>g w'. lock_guard_ctor (face_type P t f) l (rw_world s) = Some (Inr g, w')"
proof -
  from assms have "allows writer readers l Exclusive (rw_world s)" by (simp add: rw_inv_allows(2))
  then have "writer (rw_world s) l = None" "readers (rw_world s) l = (\<lambda>_. 0)"
    by (simp_all add: allows_def)
  from free_lock_is_granted [OF this, of t] show ?thesis
    unfolding face_guard_ctor by (cases f) auto
qed

end

section \<open>Properties\<close>

text \<open>C19: Readers and writers on one lock.  However many threads use it, through guards of either
  face or through the two \<open>try_lock\<close>, and in whatever order they move: while a thread is inside as
  a writer no other thread is inside; what a thread inside knows of the data is what the data are,
  so a reader sees no write during its scope and no read-modify-write of a writer is lost; every
  thread inside can leave, by the guard's destructor or by \<open>unlock\<close>, without an exception; to a
  thread outside \<open>read_lock::try_lock\<close> gives the lock only when nobody writes (it may refuse it to
  a reader while others read: POSIX lets it, where a writer waits), and \<open>write_lock::try_lock\<close> gives
  it exactly when nobody is inside; and when nobody is inside both guards and both \<open>try_lock\<close> let in
  anybody.\<close>

theorem readers_and_writers_exclude:
  assumes "posix_rw_holds P writer readers"
    and "writer w0 l = None" and "readers w0 l = (\<lambda>_. 0)" and "rw_reachable P l w0 s"
  shows "(\<forall>t c. rw_scopes s t = Some c \<longrightarrow> sc_view c = rw_data s
      \<and> (sc_face c = Exclusive \<longrightarrow> (\<forall>u. u \<noteq> t \<longrightarrow> rw_scopes s u = None))
      \<and> (\<exists>w'. leave_scope P t l c (rw_world s) = Some (Inr (), w')))
    \<and> (\<forall>t. rw_scopes s t = None \<longrightarrow>
      ((\<exists>w'. read_lock_try_lock P t l (rw_world s) = Some (Inr (), w'))
        \<longrightarrow> (\<forall>u c. rw_scopes s u = Some c \<longrightarrow> sc_face c = Shared))
      \<and> ((\<exists>w'. write_lock_try_lock P t l (rw_world s) = Some (Inr (), w'))
        \<longleftrightarrow> rw_scopes s = Map.empty))
    \<and> (rw_scopes s = Map.empty \<longrightarrow>
      (\<forall>t. \<exists>w'. read_lock_try_lock P t l (rw_world s) = Some (Inr (), w'))
      \<and> (\<forall>t f. \<exists>g w'. lock_guard_ctor (face_type P t f) l (rw_world s) = Some (Inr g, w')))"
proof -
  note inv = posix_rw_holds.rw_inv_reachable [OF assms]
  note allowed = posix_rw_holds.rw_inv_allows [OF assms(1) inv]
  show ?thesis
  proof (intro conjI allI impI, goal_cases)
    case (1 t c)
    with inv show ?case unfolding rw_inv_def by blast
  next
    case (2 t c u)
    with posix_rw_holds.rw_inv_excludes [OF assms(1) inv] show ?case by blast
  next
    case (3 t c)
    with posix_rw_holds.leave_ok [OF assms(1) inv] show ?case by blast
  next
    case (4 t u c)
    then obtain w' where "read_lock_try_lock P t l (rw_world s) = Some (Inr (), w')" by blast
    from posix_rw_holds.try_read_allowed [OF assms(1) this] 4(3) show ?case unfolding allowed(1) by blast
  next
    case (5 t)
    show ?case unfolding posix_rw_holds.try_write_iff [OF assms(1)] allowed(2) ..
  next
    case (6 t)
    show ?case by (rule posix_rw_holds.try_read_free [OF assms(1) iffD2 [OF allowed(2) 6]])
  next
    case (7 t f)
    then show ?case by (rule posix_rw_holds.free_enter [OF assms(1) inv])
  qed
qed

text \<open>Thread 1 reads through a guard, and thread 2 comes in by \<open>try_lock\<close>.\<close>

definition two_readers :: "(kernel, int) rw_system" where
  "two_readers = \<lparr>rw_world = kernel0\<lparr>k_rw := (k_rw kernel0)(7 := Readers ((\<lambda>_. 0)(1 := 1, 2 := 1)))\<rparr>,
     rw_data = 42, rw_scopes = [1 \<mapsto> \<lparr>sc_face = Shared, sc_guard = Some \<lparr>lg_mutex = 7\<rparr>, sc_view = 42\<rparr>,
       2 \<mapsto> \<lparr>sc_face = Shared, sc_guard = None, sc_view = 42\<rparr>]\<rparr>"

lemma two_readers_reachable: "rw_reachable plain_rw_api 7 kernel0 two_readers"
proof -
  let ?s = "\<lparr>rw_world = kernel0, rw_data = 42 :: int, rw_scopes = Map.empty\<rparr>"
  let ?w = "kernel0\<lparr>k_rw := (k_rw kernel0)(7 := Readers ((\<lambda>_. 0)(1 := 1)))\<rparr>"
  let ?u = "?s\<lparr>rw_world := ?w, rw_scopes := (rw_scopes ?s)
    (1 \<mapsto> \<lparr>sc_face = Shared, sc_guard = Some \<lparr>lg_mutex = 7\<rparr>, sc_view = rw_data ?s\<rparr>)\<rparr>"
  have "lock_guard_ctor (face_type plain_rw_api 1 Shared) 7 (rw_world ?s) = Some (Inr \<lparr>lg_mutex = 7\<rparr>, ?w)"
    unfolding face_guard_ctor by (simp add: ref_rw_api_def ref_rdlock_def kernel0_def kernel_put_def)
  from rw_reach_step [OF rw_reach_init rw_step.enter [OF _ this]]
  have u: "rw_reachable plain_rw_api 7 kernel0 ?u" by simp
  have "face_try_lock plain_rw_api 2 Shared 7 (rw_world ?u) = Some (Inr (), rw_world two_readers)"
    by (simp add: read_lock_try_lock_ok_iff ref_rw_api_def ref_tryrdlock_def kernel0_def kernel_put_def
        two_readers_def)
  from rw_reach_step [OF u rw_step.try_enter [OF _ this]] show ?thesis
    by (simp add: two_readers_def)
qed

text \<open>No writer comes in to them, neither reads an old value, and thread 2 can leave.\<close>

lemma readers_and_writers_exclude_witness:
  "(\<nexists>w'. write_lock_try_lock plain_rw_api 3 7 (rw_world two_readers) = Some (Inr (), w'))
   \<and> (\<exists>w'. leave_scope plain_rw_api 2 7 (the (rw_scopes two_readers 2)) (rw_world two_readers) = Some (Inr (), w'))"
proof -
  have "rw_scopes two_readers 3 = None" "rw_scopes two_readers \<noteq> Map.empty"
    "rw_scopes two_readers 2 = Some (the (rw_scopes two_readers 2))"
    by (simp_all add: two_readers_def)
  moreover have "writer_of (k_rw kernel0 7) = None" "readers_of (k_rw kernel0 7) = (\<lambda>_. 0)"
    by (simp_all add: kernel0_def)
  ultimately show ?thesis
    using readers_and_writers_exclude [OF plain_posix_rw_holds _ _ two_readers_reachable] by blast
qed

end
