(* ===== verification/Spec2Isabelle.thy ===== *)
theory Spec2Isabelle
  imports Exception_Types Queue_Programs Readers_Writers
begin

text \<open>
  A model of cpp-pthread, a C++ library over POSIX threads with the interfaces of the C++11
  standard library: mutexes, read-write locks, scoped locks, condition variables, a bounded
  queue for several threads, threads and groups of threads.

  The program and the theories.
  \<^item> \<open>Cxx_Prelude\<close>: what the C++ constructs mean.  A method is a computation over a world: it
    may not return, leave by an exception, by \<open>std::terminate\<close> or by undefined behaviour, or
    return a value; sequencing, \<open>try\<close>, \<open>noexcept\<close>, scopes with a destructor and loops are
    operators on computations.  Also signed arithmetic at a width, \<open>std::to_string\<close>, counting.
  \<^item> \<open>Pthread_Exceptions\<close>: include/pthread/exceptions.hpp, src/exceptions.cpp.
  \<^item> \<open>Posix\<close>: the functions of the system, as records of functions that every definition takes
    as an argument, and what POSIX documents about them, as locales.  \<open>Posix_Reference\<close>: an
    instance one can compute with, which keeps these laws.
  \<^item> \<open>Lock_Guard\<close>: include/pthread/lock_guard.hpp, over any type with \<open>lock\<close> and \<open>unlock\<close>; the
    contract of a lock is the locale \<open>lockable\<close>, which \<open>Mutex\<close> (mutex.hpp, mutex.cpp) and
    \<open>Read_Write_Lock\<close> (read_write_lock.hpp, read_write_lock.cpp) keep.  \<open>Readers_Writers\<close>: any number
    of threads on one read-write lock and the data it guards.
  \<^item> \<open>Condition_Variable\<close>: condition_variable.hpp, condition_variable.cpp.  The member \<open>timeout\<close>
    is in the memory that the waiters share.
  \<^item> \<open>Sync_Queue\<close>: include/pthread/sync_queue.hpp, each method as one thread runs it; the
    actions of the others are part of what the system's functions do to the world.
    \<open>Sync_Queue_Steps\<close>: the same methods as a step relation of any number of threads, and its
    invariants.  \<open>Sync_Queue_Progress\<close>: what they give.  \<open>Sync_Queue_Simulation\<close> ties the two
    models together: what the system's functions do while a thread is inside them, as steps of
    all threads, is the locale \<open>queue_os\<close>, and each method run over them is a run of the step
    relation.  \<open>Sync_Queue_Calls\<close> has a system with other threads that act, and what callers get.
    \<open>Sync_Queue_Cxx98\<close>: the queue as compilers without lambdas build it.  \<open>Timed_Calls\<close>: how
    long the calls with a waiting time last, at least and at most, on a system with a clock.
    \<open>Producers_Consumers\<close>: programs whose threads make lists of calls.  \<open>Queue_Programs\<close>: the same
    as members of a \<open>thread_group\<close>, whose threads are created while others run.
  \<^item> \<open>Thread\<close>, \<open>Thread_Group\<close>: include/pthread/thread.hpp, src/thread.cpp.  Objects live at
    addresses of a memory, because threads point into themselves and are owned by pointers.
    \<open>Thread_Attributes\<close>: whole programs over them.  \<open>Thread_Execution\<close>: what is run in them.
  \<^item> \<open>Exception_Types\<close>: the classes of exceptions as an ordered type, and the types of the
    exceptions that each method of each component may let out.
  \<^item> This theory: src/pthread.cpp.

  What is shown.
  \<^item> The queue: mutual exclusion, first in first out without loss, the limit, refinement of a
    bounded buffer, the same when system calls fail; no lost wake-up, no deadlock and no livelock
    while they do not; exact outcomes of the four methods, the exceptions of the calls without a
    waiting time included; undefined behaviour exactly where a deadline overflows; exception safety of
    the constructor, and what the destructor leaves where a condition is in use; a call that returns has taken
    effect exactly once, at one step of a run of all threads, one that gives up never, and one
    that a failing system call ends at most once; and that \<open>set_max_size\<close> may leave a \<open>put\<close> asleep
    and does not keep the value it is given.  Programs of producers and consumers whose numbers
    match come to their end, whatever the scheduler does; started and joined as a group, the join
    comes back and every item is accounted for.  The waiting loop of the older build ends in the same
    worlds as the newer one, but does not look again after a time-out nor read the clock for a negative
    time; its sizes are read and
    written under the read-write lock, and its constructor leaves nothing behind when it fails.
  \<^item> Condition variables: the deadline is exact for every delay, and its signed arithmetic overflows,
    which is undefined, for no documented value of the clock; the waits with a predicate
    return in the first world in which it holds, or at the first time-out; a deadline that
    another waiter overwrites, a negative delay and an ignored error are shown with what they
    lead to.  Where nobody else uses the deadlines the timed calls of the queue do not give up before
    their time, and come back at
    most five latencies of the system after it, counted from when they have the mutex, however
    often they are woken up for nothing.
  \<^item> Locks: \<open>try_lock\<close> decides at once, and when it must refuse and when it must not; a guarded scope releases its lock however it is left; a writer has
    the data for itself, a reader sees no write, and whoever is inside can leave.
  \<^item> Exceptions: the signature of every method, and that those of the queue are exact.
  \<^item> Threads: \<open>join\<close> on every branch; constructors leave a running thread or nothing; moves keep
    handles and attribute pointers; calls on \<open>abstract_thread\<close> objects keep the memory
    well-formed; the destructor of a group deletes all it owns and comes back; a group started
    and joined has run every member to its end; a group started and destroyed leaves nothing
    behind; a second \<open>start\<close> leaks a thread object, but in no program do attributes outlive their
    thread object or get destroyed twice.

  Bounds.  The loops of the waits are partial functions: a wait that never ends has no result.
  Their results are characterised by the number of waits, without a bound.  The moves of the
  threads of the queue are bounded by a weight in which a notification counts more than a round
  of every other thread.  \<open>int\<close> has 32 bits, \<open>long\<close> and \<open>size_t\<close> have 64.

  Not modelled: \<open>get\<close> without a waiting time before C++11 (its branch does not compile), the
  output of debug builds, \<open>std::bad_alloc\<close>, data races on \<open>size\<close> and \<open>empty\<close> (they read the list
  without the mutex), and destructors of classes derived from \<open>abstract_thread\<close>.
  Copies of items that throw are not modelled either, and the unlock of a mutex by its owner does
  not fail in the steps of the queue.  That the moves come to an end, and that no wake-up is lost,
  is shown for runs in which no system call fails.
\<close>

section \<open>The version of the library\<close>

text \<open>\<open>CPP_PTHREAD_VERSION\<close> is a macro of the generated config.h, defined or not.\<close>

definition cpp_pthread_version :: "string option \<Rightarrow> string" where
  "cpp_pthread_version CPP_PTHREAD_VERSION = (case CPP_PTHREAD_VERSION of
       None \<Rightarrow> ''missing CPP_PTHREAD_VERSION define. Re-run configure''
     | Some version \<Rightarrow> version)"

end
